theory Spec2Isabelle
  imports Complex_Main "HOL-Library.Word" "HOL-Library.Multiset" "HOL-Library.AList"
begin

section \<open>Memory-retention scheduler: concepts, min-heap and concept graph\<close>

text \<open>
  The development embeds \<^verbatim>\<open>src/main.cpp\<close>. Conventions of the embedding:
  \<^item> a C++ \<^verbatim>\<open>double\<close> is an ideal real number (no rounding, no NaN, no infinities);
  \<^item> a C++ \<^verbatim>\<open>int\<close> holding a day number or a counter is a 32-bit word read as a signed
    number with \<open>sint\<close>, so \<open>+\<close> and \<open>-\<close> wrap around;
  \<^item> an index into the heap's vector is a natural number (vector sizes stay far below
    \<^verbatim>\<open>INT_MAX\<close>);
  \<^item> \<^verbatim>\<open>std::unordered_map<std::string, Concept*>\<close> is an association list with distinct keys,
    its list order being the order in which the container's iterator yields the entries. The
    theorems below hold for every such order. Every \<^verbatim>\<open>Concept*\<close> comes from its own
    \<^verbatim>\<open>new\<close>, so no two entries alias and the list holds the concept values themselves;
  \<^item> a \<^verbatim>\<open>throw std::runtime_error(msg)\<close> is the value \<open>Inl (runtime_error msg)\<close>.
\<close>

subsection \<open>Concept\<close>

type_synonym c_int = "32 word"

record Concept =
  name :: string
  id_c :: string
  category :: string
  initial_weight :: real
  memory_strength :: real
  last_revised_day :: c_int
  prerequisites :: "string list"

text \<open>The constructor: \<^verbatim>\<open>memory_strength(initial_weight)\<close>.\<close>

definition new_Concept ::
  "string \<Rightarrow> string \<Rightarrow> string \<Rightarrow> real \<Rightarrow> c_int \<Rightarrow> string list \<Rightarrow> Concept" where
  "new_Concept nm ident cat w day prereqs =
     \<lparr>name = nm, id_c = ident, category = cat, initial_weight = w,
      memory_strength = w, last_revised_day = day, prerequisites = prereqs\<rparr>"

definition calculateMemory :: "Concept \<Rightarrow> c_int \<Rightarrow> real \<Rightarrow> real" where
  "calculateMemory c current_day lambda =
     (let days_since_revision = current_day - last_revised_day c;
          decay = initial_weight c * exp (- lambda * real_of_int (sint days_since_revision))
      in if decay < 0.1 then 0.1 else if decay > 1.0 then 1.0 else decay)"

definition updateMemoryStrength :: "Concept \<Rightarrow> c_int \<Rightarrow> real \<Rightarrow> Concept" where
  "updateMemoryStrength c current_day lambda =
     c\<lparr>memory_strength := calculateMemory c current_day lambda\<rparr>"

definition revise :: "Concept \<Rightarrow> c_int \<Rightarrow> real \<Rightarrow> Concept" where
  "revise c current_day boost =
     (let c1 = c\<lparr>memory_strength := min 1.0 (memory_strength c + boost)\<rparr>;
          c2 = c1\<lparr>initial_weight := memory_strength c1\<rparr>
      in c2\<lparr>last_revised_day := current_day\<rparr>)"

text \<open>The clamp of the specification, \<open>clamp(x, lo, hi)\<close>, to compare with the conditional
  expression of \<open>calculateMemory\<close>.\<close>

definition clamp_spec :: "real \<Rightarrow> real \<Rightarrow> real \<Rightarrow> real" where
  "clamp_spec x lo hi = max lo (min hi x)"

subsection \<open>MinHeap\<close>

text \<open>The field \<^verbatim>\<open>memory_strength\<close> of \<^verbatim>\<open>HeapNode\<close> is \<open>node_strength\<close> here, the name
  \<open>memory_strength\<close> being taken by the field of \<open>Concept\<close>.\<close>

datatype HeapNode = HeapNode (concept_id: string) (node_strength: real)

datatype error = runtime_error string

text \<open>\<^verbatim>\<open>std::swap(heap[i], heap[j])\<close> on two valid indices.\<close>

definition swap_nodes :: "HeapNode list \<Rightarrow> nat \<Rightarrow> nat \<Rightarrow> HeapNode list" where
  "swap_nodes heap i j = heap[i := heap ! j, j := heap ! i]"

text \<open>\<^verbatim>\<open>heapifyUp\<close> is only ever called with a valid index (the last one after a
  \<^verbatim>\<open>push_back\<close>, or the index found by \<^verbatim>\<open>updateKey\<close>).\<close>

function heapifyUp :: "HeapNode list \<Rightarrow> nat \<Rightarrow> HeapNode list" where
  "heapifyUp heap index =
     (if index > 0 \<and> node_strength (heap ! ((index - 1) div 2)) > node_strength (heap ! index)
      then heapifyUp (swap_nodes heap ((index - 1) div 2) index) ((index - 1) div 2)
      else heap)"
  by pat_completeness auto
termination
  by (relation "measure (\<lambda>(heap, index). index)") auto

text \<open>The first half of \<^verbatim>\<open>heapifyDown\<close>: the index of the smallest strength among \<open>index\<close>
  and those of its two children that lie inside the array. An index outside the array has no
  child inside, so nothing is read out of range.\<close>

definition minIndex_of :: "HeapNode list \<Rightarrow> nat \<Rightarrow> nat" where
  "minIndex_of heap index =
     (let minIndex = index;
          left = 2 * index + 1;
          right = 2 * index + 2;
          minIndex = (if left < length heap \<and>
                         node_strength (heap ! left) < node_strength (heap ! minIndex)
                      then left else minIndex);
          minIndex = (if right < length heap \<and>
                         node_strength (heap ! right) < node_strength (heap ! minIndex)
                      then right else minIndex)
      in minIndex)"

function heapifyDown :: "HeapNode list \<Rightarrow> nat \<Rightarrow> HeapNode list" where
  "heapifyDown heap index =
     (let minIndex = minIndex_of heap index
      in if minIndex \<noteq> index
         then heapifyDown (swap_nodes heap index minIndex) minIndex
         else heap)"
  by pat_completeness auto
termination
proof (relation "measure (\<lambda>(heap, index). length heap - index)")
  show "wf (measure (\<lambda>(heap, index). length heap - index))" by simp
next
  fix heap :: "HeapNode list" and index x
  assume "x = minIndex_of heap index" and "x \<noteq> index"
  moreover have "minIndex_of heap index = index \<or>
    (minIndex_of heap index < length heap \<and> index < minIndex_of heap index)"
    by (simp add: minIndex_of_def Let_def)
  ultimately show "((swap_nodes heap index x, x), (heap, index))
          \<in> measure (\<lambda>(heap, index). length heap - index)"
    by (auto simp: swap_nodes_def)
qed

text \<open>The public operations of \<^verbatim>\<open>MinHeap\<close>; the heap is the object's only field.\<close>

definition insert_h :: "HeapNode list \<Rightarrow> string \<Rightarrow> real \<Rightarrow> HeapNode list" where
  "insert_h heap cid strength =
     (let heap1 = heap @ [HeapNode cid strength]
      in heapifyUp heap1 (length heap1 - 1))"

definition extractMin :: "HeapNode list \<Rightarrow> error + (string \<times> HeapNode list)" where
  "extractMin heap =
     (if heap = [] then Inl (runtime_error ''Heap is empty'')
      else let min_id = concept_id (heap ! 0);
               heap1 = heap[0 := last heap];
               heap2 = butlast heap1
           in Inr (min_id, if heap2 \<noteq> [] then heapifyDown heap2 0 else heap2))"

definition peekMin :: "HeapNode list \<Rightarrow> error + string" where
  "peekMin heap =
     (if heap = [] then Inl (runtime_error ''Heap is empty'') else Inr (concept_id (heap ! 0)))"

definition isEmpty :: "HeapNode list \<Rightarrow> bool" where
  "isEmpty heap = (heap = [])"

definition size_h :: "HeapNode list \<Rightarrow> nat" where
  "size_h heap = length heap"

text \<open>The linear scan of \<^verbatim>\<open>updateKey\<close>, from index \<open>i\<close> on; it returns at the first match.\<close>

function updateKey_from :: "HeapNode list \<Rightarrow> string \<Rightarrow> real \<Rightarrow> nat \<Rightarrow> HeapNode list" where
  "updateKey_from heap cid new_strength i =
     (if i < length heap then
        (if concept_id (heap ! i) = cid then
           (let old_strength = node_strength (heap ! i);
                heap1 = heap[i := HeapNode (concept_id (heap ! i)) new_strength]
            in if new_strength < old_strength then heapifyUp heap1 i else heapifyDown heap1 i)
         else updateKey_from heap cid new_strength (i + 1))
      else heap)"
  by pat_completeness auto
termination
  by (relation "measure (\<lambda>(heap, cid, new_strength, i). length heap - i)") auto

definition updateKey :: "HeapNode list \<Rightarrow> string \<Rightarrow> real \<Rightarrow> HeapNode list" where
  "updateKey heap cid new_strength = updateKey_from heap cid new_strength 0"

text \<open>The second loop of \<^verbatim>\<open>rebuild\<close>: \<open>rebuild_loop heap n\<close> runs \<^verbatim>\<open>heapifyDown(i)\<close> for
  \<open>i = n - 1\<close> down to \<open>0\<close>. The code starts at \<^verbatim>\<open>heap.size() / 2 - 1\<close>, which is \<open>-1\<close> as an
  \<^verbatim>\<open>int\<close> for fewer than two elements: no iteration.\<close>

fun rebuild_loop :: "HeapNode list \<Rightarrow> nat \<Rightarrow> HeapNode list" where
  "rebuild_loop heap 0 = heap"
| "rebuild_loop heap (Suc i) = rebuild_loop (heapifyDown heap i) i"

definition rebuild :: "HeapNode list \<Rightarrow> (string \<times> real) list \<Rightarrow> HeapNode list" where
  "rebuild heap data =
     (let heap0 = [];
          heap1 = heap0 @ map (\<lambda>item. HeapNode (fst item) (snd item)) data
      in rebuild_loop heap1 (length heap1 div 2))"

subsection \<open>MemoryGraph\<close>

record MemoryGraph =
  concepts :: "(string \<times> Concept) list"
  graph :: "(string \<times> string list) list"
  priority_queue :: "HeapNode list"
  current_day :: c_int
  lambda :: real
  total_revisions :: c_int

definition new_MemoryGraph :: "real \<Rightarrow> MemoryGraph" where
  "new_MemoryGraph decay_rate =
     \<lparr>concepts = [], graph = [], priority_queue = [],
      current_day = 0, lambda = decay_rate, total_revisions = 0\<rparr>"

definition rebuildPriorityQueue :: "MemoryGraph \<Rightarrow> MemoryGraph" where
  "rebuildPriorityQueue g =
     (let data = map (\<lambda>pair. (fst pair, memory_strength (snd pair))) (concepts g)
      in g\<lparr>priority_queue := rebuild (priority_queue g) data\<rparr>)"

text \<open>\<^verbatim>\<open>concepts[id] = new_concept\<close> replaces the value of a key that is present, in place, and
  adds an entry for a key that is not (\<open>AList.update\<close> puts it last; the theorems depend on
  no position).\<close>

definition insertConcept ::
  "string \<Rightarrow> string \<Rightarrow> string \<Rightarrow> real \<Rightarrow> string list \<Rightarrow> MemoryGraph \<Rightarrow> MemoryGraph" where
  "insertConcept nm ident cat w prereqs g =
     (let new_concept = new_Concept nm ident cat w (current_day g) prereqs
      in g\<lparr>concepts := AList.update ident new_concept (concepts g),
           graph := AList.update ident prereqs (graph g),
           priority_queue := insert_h (priority_queue g) ident w\<rparr>)"

definition updateMemoryStrengths :: "MemoryGraph \<Rightarrow> MemoryGraph" where
  "updateMemoryStrengths g =
     rebuildPriorityQueue
       (g\<lparr>concepts :=
            map (\<lambda>pair. (fst pair, updateMemoryStrength (snd pair) (current_day g) (lambda g)))
              (concepts g)\<rparr>)"

text \<open>\<^verbatim>\<open>getNextRevisionRecommendation\<close> returns a string; the result is a sum because
  \<^verbatim>\<open>peekMin\<close> can throw.\<close>

definition getNextRevisionRecommendation :: "MemoryGraph \<Rightarrow> error + string" where
  "getNextRevisionRecommendation g =
     (if isEmpty (priority_queue g) then Inr '''' else peekMin (priority_queue g))"

text \<open>The neighbour loop of \<^verbatim>\<open>reviseConcept\<close> over the entries still to visit. The target's
  prerequisite list is passed in: the loop changes no prerequisite list.\<close>

fun boost_connected ::
  "string \<Rightarrow> string list \<Rightarrow> (string \<times> Concept) list \<Rightarrow> HeapNode list
     \<Rightarrow> (string \<times> Concept) list \<times> HeapNode list" where
  "boost_connected cid target_prereqs [] pq = ([], pq)"
| "boost_connected cid target_prereqs (pair # rest) pq =
     (let other = snd pair;
          is_connected = (\<exists>prereq \<in> set (prerequisites other). prereq = cid);
          is_connected = (if \<not> is_connected
                          then (\<exists>prereq \<in> set target_prereqs. prereq = id_c other)
                          else is_connected)
      in if is_connected then
           (let other1 = other\<lparr>memory_strength := min 1.0 (memory_strength other + 0.1)\<rparr>;
                other2 = other1\<lparr>initial_weight := memory_strength other1\<rparr>;
                pq1 = updateKey pq (id_c other2) (memory_strength other2);
                res = boost_connected cid target_prereqs rest pq1
            in ((fst pair, other2) # fst res, snd res))
         else
           (let res = boost_connected cid target_prereqs rest pq
            in (pair # fst res, snd res)))"

text \<open>\<^verbatim>\<open>reviseConcept\<close> throws before it changes anything, so the model returns the graph
  it was given together with the error.\<close>

definition reviseConcept :: "string \<Rightarrow> real \<Rightarrow> MemoryGraph \<Rightarrow> (error + unit) \<times> MemoryGraph" where
  "reviseConcept cid boost g =
     (case map_of (concepts g) cid of
        None \<Rightarrow> (Inl (runtime_error (''Concept not found: '' @ cid)), g)
      | Some c \<Rightarrow>
          (let c1 = revise c (current_day g) boost;
               concepts1 = AList.update cid c1 (concepts g);
               pq1 = updateKey (priority_queue g) cid (memory_strength c1);
               res = boost_connected cid (prerequisites c1) concepts1 pq1
           in (Inr (),
               g\<lparr>concepts := fst res, priority_queue := snd res,
                 total_revisions := total_revisions g + 1\<rparr>)))"

definition simulateTimePassage :: "c_int \<Rightarrow> MemoryGraph \<Rightarrow> MemoryGraph" where
  "simulateTimePassage days g = updateMemoryStrengths (g\<lparr>current_day := current_day g + days\<rparr>)"

definition setDecayRate :: "real \<Rightarrow> MemoryGraph \<Rightarrow> MemoryGraph" where
  "setDecayRate rate g = g\<lparr>lambda := rate\<rparr>"

definition getCurrentDay :: "MemoryGraph \<Rightarrow> c_int" where
  "getCurrentDay g = current_day g"

definition getTotalRevisions :: "MemoryGraph \<Rightarrow> c_int" where
  "getTotalRevisions g = total_revisions g"

definition getTotalConcepts :: "MemoryGraph \<Rightarrow> nat" where
  "getTotalConcepts g = length (concepts g)"

subsection \<open>Example states\<close>

text \<open>The scenario of the specification: \<open>arrays\<close> at 0.45 and \<open>sorting\<close> at 0.62 with
  prerequisite \<open>arrays\<close>, inserted at day 0 into a graph of decay rate 0.15.\<close>

definition example_graph :: MemoryGraph where
  "example_graph =
     insertConcept ''Sorting Algorithms'' ''sorting'' ''Algorithms'' 0.62 [''arrays'']
       (insertConcept ''Arrays'' ''arrays'' ''Data Structures'' 0.45 [] (new_MemoryGraph 0.15))"

definition example_heap :: "HeapNode list" where
  "example_heap = [HeapNode ''a'' 0.2, HeapNode ''b'' 0.5, HeapNode ''c'' 0.3]"

subsection \<open>Invariants\<close>

text \<open>The min-heap property of the backing array: the strength at the parent index
  \<open>(i - 1) div 2\<close> is at most the strength at \<open>i\<close>, for every index \<open>i > 0\<close>.\<close>

definition parent_ok :: "HeapNode list \<Rightarrow> nat \<Rightarrow> bool" where
  "parent_ok heap i = (node_strength (heap ! ((i - 1) div 2)) \<le> node_strength (heap ! i))"

definition min_heap_property :: "HeapNode list \<Rightarrow> bool" where
  "min_heap_property heap = (\<forall>i < length heap. 0 < i \<longrightarrow> parent_ok heap i)"

text \<open>The two sifting procedures work on arrays whose order is broken around one index:
  \<open>heap_from heap m\<close> orders every edge whose parent index is at least \<open>m\<close>; \<open>down_inv\<close> and
  \<open>up_inv\<close> allow the element at \<open>i\<close> to be too large for its children, or too small for its
  parent.\<close>

definition heap_from :: "HeapNode list \<Rightarrow> nat \<Rightarrow> bool" where
  "heap_from heap m = (\<forall>j < length heap. 0 < j \<and> m \<le> (j - 1) div 2 \<longrightarrow> parent_ok heap j)"

definition down_inv :: "HeapNode list \<Rightarrow> nat \<Rightarrow> nat \<Rightarrow> bool" where
  "down_inv heap m i =
     (\<forall>j < length heap. 0 < j \<longrightarrow>
        (m \<le> (j - 1) div 2 \<and> (j - 1) div 2 \<noteq> i \<longrightarrow> parent_ok heap j) \<and>
        ((j - 1) div 2 = i \<and> 0 < i \<and> m \<le> (i - 1) div 2 \<longrightarrow>
           node_strength (heap ! ((i - 1) div 2)) \<le> node_strength (heap ! j)))"

definition up_inv :: "HeapNode list \<Rightarrow> nat \<Rightarrow> bool" where
  "up_inv heap i =
     (\<forall>j < length heap. 0 < j \<longrightarrow>
        (j \<noteq> i \<longrightarrow> parent_ok heap j) \<and>
        ((j - 1) div 2 = i \<and> 0 < i \<longrightarrow>
           node_strength (heap ! ((i - 1) div 2)) \<le> node_strength (heap ! j)))"

text \<open>The neighbour relation and the boost of \<open>reviseConcept\<close>, and one step of its loop on
  the priority structure.\<close>

definition is_connected_to :: "string \<Rightarrow> string list \<Rightarrow> Concept \<Rightarrow> bool" where
  "is_connected_to cid target_prereqs other =
     (cid \<in> set (prerequisites other) \<or> id_c other \<in> set target_prereqs)"

definition neighbor_boost :: "Concept \<Rightarrow> Concept" where
  "neighbor_boost other =
     other\<lparr>memory_strength := min 1 (memory_strength other + 1 / 10),
           initial_weight := min 1 (memory_strength other + 1 / 10)\<rparr>"

definition boost_step :: "string \<Rightarrow> string list \<Rightarrow> HeapNode list \<Rightarrow> string \<times> Concept \<Rightarrow> HeapNode list" where
  "boost_step cid target_prereqs pq pair =
     (if is_connected_to cid target_prereqs (snd pair)
      then updateKey pq (id_c (snd pair)) (min 1 (memory_strength (snd pair) + 1 / 10))
      else pq)"

text \<open>The concept map has unique keys, every concept is stored under its own id and has at
  least one entry in the priority structure.\<close>

definition well_formed :: "MemoryGraph \<Rightarrow> bool" where
  "well_formed g =
     (distinct (map fst (concepts g)) \<and>
      (\<forall>pair \<in> set (concepts g). id_c (snd pair) = fst pair) \<and>
      (\<forall>pair \<in> set (concepts g). fst pair \<in> concept_id ` set (priority_queue g)))"

text \<open>The entries the priority structure should hold: one per concept, with the concept's
  current strength. The graph is in sync when the heap holds exactly these entries, as a
  multiset, and is a min-heap.\<close>

definition heap_entries :: "(string \<times> Concept) list \<Rightarrow> HeapNode list" where
  "heap_entries cs = map (\<lambda>pair. HeapNode (fst pair) (memory_strength (snd pair))) cs"

definition in_sync :: "MemoryGraph \<Rightarrow> bool" where
  "in_sync g =
     (distinct (map fst (concepts g)) \<and>
      (\<forall>pair \<in> set (concepts g). id_c (snd pair) = fst pair) \<and>
      mset (priority_queue g) = mset (heap_entries (concepts g)) \<and>
      min_heap_property (priority_queue g))"

subsection \<open>Sequences of public operations\<close>

text \<open>The mutating public operations of \<open>MemoryGraph\<close> as values, to speak about the states
  a graph can reach. A failed \<open>reviseConcept\<close> leaves the graph as it was.\<close>

datatype operation =
    InsertConcept string string string real "string list"
  | UpdateMemoryStrengths
  | ReviseConcept string real
  | SimulateTimePassage c_int
  | SetDecayRate real

fun apply_operation :: "operation \<Rightarrow> MemoryGraph \<Rightarrow> MemoryGraph" where
  "apply_operation (InsertConcept nm ident cat w prereqs) g = insertConcept nm ident cat w prereqs g"
| "apply_operation UpdateMemoryStrengths g = updateMemoryStrengths g"
| "apply_operation (ReviseConcept cid boost) g = snd (reviseConcept cid boost g)"
| "apply_operation (SimulateTimePassage days) g = simulateTimePassage days g"
| "apply_operation (SetDecayRate rate) g = setDecayRate rate g"

text \<open>The states a new graph can reach. The order in which \<^verbatim>\<open>std::unordered_map\<close> yields
  its entries is unspecified and may change when the container grows, so the list of concepts
  may be reordered at any time.\<close>

inductive reachable :: "MemoryGraph \<Rightarrow> bool" where
  new_graph: "reachable (new_MemoryGraph rate)"
| operation: "reachable g \<Longrightarrow> reachable (apply_operation op g)"
| reordered: "reachable g \<Longrightarrow> mset cs = mset (concepts g) \<Longrightarrow> reachable (g\<lparr>concepts := cs\<rparr>)"

text \<open>The states reached without ever inserting an id that is present.\<close>

fun inserts_fresh_id :: "operation \<Rightarrow> MemoryGraph \<Rightarrow> bool" where
  "inserts_fresh_id (InsertConcept nm ident cat w prereqs) g = (ident \<notin> fst ` set (concepts g))"
| "inserts_fresh_id _ g = True"

inductive reachable_without_reinsert :: "MemoryGraph \<Rightarrow> bool" where
  new_graph: "reachable_without_reinsert (new_MemoryGraph rate)"
| operation: "reachable_without_reinsert g \<Longrightarrow> inserts_fresh_id op g \<Longrightarrow>
     reachable_without_reinsert (apply_operation op g)"
| reordered: "reachable_without_reinsert g \<Longrightarrow> mset cs = mset (concepts g) \<Longrightarrow>
     reachable_without_reinsert (g\<lparr>concepts := cs\<rparr>)"

text \<open>The example graph after \<open>arrays\<close> is inserted a second time, as the command
  \<^verbatim>\<open>ADD_CONCEPT Arrays|arrays|Data Structures|\<close> does with its fixed weight 1.0.\<close>

definition duplicate_graph :: MemoryGraph where
  "duplicate_graph = insertConcept ''Arrays'' ''arrays'' ''Data Structures'' 1.0 [] example_graph"

section \<open>Properties\<close>

declare heapifyUp.simps [simp del] heapifyDown.simps [simp del] updateKey_from.simps [simp del]

subsection \<open>Decay and revision of a concept\<close>

lemma calculateMemory_clamp:
  "calculateMemory c day lam =
     clamp_spec (initial_weight c * exp (- lam * real_of_int (sint (day - last_revised_day c))))
       (1 / 10) 1"
  by (simp add: calculateMemory_def clamp_spec_def Let_def)

lemma calculateMemory_range:
  "1 / 10 \<le> calculateMemory c day lam \<and> calculateMemory c day lam \<le> 1"
  by (simp add: calculateMemory_def Let_def)

lemma updateMemoryStrengths_concepts:
  "concepts (updateMemoryStrengths g) =
     map (\<lambda>pair. (fst pair, updateMemoryStrength (snd pair) (current_day g) (lambda g)))
       (concepts g)"
  by (simp add: updateMemoryStrengths_def rebuildPriorityQueue_def Let_def)

lemma updateMemoryStrengths_params:
  "current_day (updateMemoryStrengths g) = current_day g"
  "lambda (updateMemoryStrengths g) = lambda g"
  by (simp_all add: updateMemoryStrengths_def rebuildPriorityQueue_def Let_def)

text \<open>
  Claim C1. \<open>calculateMemory\<close> returns \<open>initial_weight * exp (- lambda * (current_day -
  last_revised_day))\<close> clamped to the closed interval from 0.1 to 1.0, where the day difference is
  the \<^verbatim>\<open>int\<close> subtraction of the code. It is a function of the concept and its two arguments
  and returns only a number, so it changes nothing. \<open>updateMemoryStrengths\<close> replaces the
  \<open>memory_strength\<close> of every concept by that value, computed from the \<open>initial_weight\<close> and
  \<open>last_revised_day\<close> the concept had before the call and the graph's current day and decay
  rate, and changes no other field of a concept, no id, and neither the day nor the rate; so
  after the call every concept's \<open>memory_strength\<close> equals the clamped formula on the fields
  it then has. In the example, ten days at rate 0.15 bring \<open>sorting\<close> below its 0.62.
\<close>

theorem calculateMemory_clamped_and_refreshed:
  "calculateMemory c day lam =
     clamp_spec (initial_weight c * exp (- lam * real_of_int (sint (day - last_revised_day c))))
       (1 / 10) 1
   \<and> 1 / 10 \<le> calculateMemory c day lam \<and> calculateMemory c day lam \<le> 1
   \<and> concepts (updateMemoryStrengths g) =
       map (\<lambda>pair. (fst pair,
              (snd pair)\<lparr>memory_strength :=
                 clamp_spec
                   (initial_weight (snd pair) *
                      exp (- lambda g *
                         real_of_int (sint (current_day g - last_revised_day (snd pair)))))
                   (1 / 10) 1\<rparr>))
         (concepts g)
   \<and> current_day (updateMemoryStrengths g) = current_day g
   \<and> lambda (updateMemoryStrengths g) = lambda g
   \<and> map fst (concepts (updateMemoryStrengths g)) = map fst (concepts g)
   \<and> (\<forall>pair \<in> set (concepts (updateMemoryStrengths g)).
        memory_strength (snd pair) =
          clamp_spec
            (initial_weight (snd pair) *
               exp (- lambda (updateMemoryStrengths g) *
                  real_of_int (sint (current_day (updateMemoryStrengths g)
                                      - last_revised_day (snd pair)))))
            (1 / 10) 1)"
proof -
  have pinned: "concepts (updateMemoryStrengths g) =
       map (\<lambda>pair. (fst pair,
              (snd pair)\<lparr>memory_strength :=
                 clamp_spec
                   (initial_weight (snd pair) *
                      exp (- lambda g *
                         real_of_int (sint (current_day g - last_revised_day (snd pair)))))
                   (1 / 10) 1\<rparr>))
         (concepts g)"
    by (simp add: updateMemoryStrengths_concepts updateMemoryStrength_def calculateMemory_clamp)
  have "\<forall>pair \<in> set (concepts (updateMemoryStrengths g)).
        memory_strength (snd pair) =
          clamp_spec
            (initial_weight (snd pair) *
               exp (- lambda (updateMemoryStrengths g) *
                  real_of_int (sint (current_day (updateMemoryStrengths g)
                                      - last_revised_day (snd pair)))))
            (1 / 10) 1"
    unfolding pinned by (auto simp: updateMemoryStrengths_params)
  moreover have "map fst (concepts (updateMemoryStrengths g)) = map fst (concepts g)"
    unfolding pinned by (simp add: comp_def)
  ultimately show ?thesis
    using calculateMemory_range [of c day lam] pinned
    by (simp only: calculateMemory_clamp updateMemoryStrengths_params simp_thms)
qed

theorem calculateMemory_clamped_and_refreshed_witness:
  "concepts (simulateTimePassage 10 example_graph) =
     [(''arrays'',
       (new_Concept ''Arrays'' ''arrays'' ''Data Structures'' 0.45 0 [])
         \<lparr>memory_strength := clamp_spec (0.45 * exp (- (3 / 2))) (1 / 10) 1\<rparr>),
      (''sorting'',
       (new_Concept ''Sorting Algorithms'' ''sorting'' ''Algorithms'' 0.62 0 [''arrays''])
         \<lparr>memory_strength := clamp_spec (0.62 * exp (- (3 / 2))) (1 / 10) 1\<rparr>)]
   \<and> clamp_spec (0.62 * exp (- (3 / 2))) (1 / 10) 1 < (0.62 :: real)
   \<and> calculateMemory
        (new_Concept ''Sorting Algorithms'' ''sorting'' ''Algorithms'' 0.62 0 [''arrays'']) 10 0.15
       = clamp_spec (0.62 * exp (- (3 / 2))) (1 / 10) 1"
proof -
  let ?g = "example_graph\<lparr>current_day := current_day example_graph + 10\<rparr>"
  have cs: "concepts ?g =
     [(''arrays'', new_Concept ''Arrays'' ''arrays'' ''Data Structures'' 0.45 0 []),
      (''sorting'', new_Concept ''Sorting Algorithms'' ''sorting'' ''Algorithms'' 0.62 0 [''arrays''])]"
    and day: "current_day ?g = 10" and lam: "lambda ?g = 3 / 20"
    by (simp_all add: example_graph_def insertConcept_def new_MemoryGraph_def)
  have less: "clamp_spec (0.62 * exp (- (3 / 2))) (1 / 10) 1 < (0.62 :: real)"
  proof -
    define d :: real where "d = 0.62 * exp (- (3 / 2))"
    have "exp (- (3 / 2)) < (1 :: real)" by simp
    then have "d < 0.62" by (simp add: d_def)
    then have "max (1 / 10) (min 1 d) < 0.62" by (simp add: min_def)
    then show ?thesis by (simp only: clamp_spec_def d_def)
  qed
  from calculateMemory_clamped_and_refreshed
    [of "new_Concept ''Sorting Algorithms'' ''sorting'' ''Algorithms'' 0.62 0 [''arrays'']"
      10 "0.15" ?g]
  show ?thesis
    using less by (simp add: simulateTimePassage_def cs day lam new_Concept_def)
qed

text \<open>
  Claim C7. \<open>revise\<close> sets \<open>memory_strength\<close> to the minimum of 1.0 and the old strength plus
  the boost, sets \<open>initial_weight\<close> to that value and \<open>last_revised_day\<close> to the given day; it
  is total, so it never fails. Decay after the revision starts from the boosted value.
\<close>

theorem revise_resets_baseline:
  "memory_strength (revise c day boost) = min 1 (memory_strength c + boost)
   \<and> initial_weight (revise c day boost) = min 1 (memory_strength c + boost)
   \<and> last_revised_day (revise c day boost) = day
   \<and> calculateMemory (revise c day boost) later lam =
       clamp_spec (min 1 (memory_strength c + boost)
                     * exp (- lam * real_of_int (sint (later - day)))) (1 / 10) 1"
  by (simp add: revise_def Let_def calculateMemory_clamp)

subsection \<open>Insertion\<close>

text \<open>
  Claim C8 says that the stored \<open>initial_weight\<close> lies between 0.0 and 1.0 for every argument.
  Neither the constructor nor \<open>insertConcept\<close> clamps: a weight of 5 is stored as 5.
\<close>

theorem insertConcept_weight_not_clamped:
  "\<not> (initial_weight
        (the (map_of (concepts (insertConcept ''X'' ''x'' ''c'' 5 [] (new_MemoryGraph 0.15)))
                ''x'')) \<le> 1)"
  by (simp add: insertConcept_def new_MemoryGraph_def new_Concept_def)

text \<open>
  Claim C8, amended. After \<open>insertConcept\<close> the concept stored under the id has exactly the
  \<open>initial_weight\<close> the caller passed, so it lies between 0.0 and 1.0 exactly when the
  argument does.
\<close>

theorem insertConcept_stores_weight:
  "map_of (concepts (insertConcept nm ident cat w prereqs g)) ident =
      Some (new_Concept nm ident cat w (current_day g) prereqs)
   \<and> initial_weight (the (map_of (concepts (insertConcept nm ident cat w prereqs g)) ident)) = w
   \<and> ((0 \<le> initial_weight (the (map_of (concepts (insertConcept nm ident cat w prereqs g)) ident))
        \<and> initial_weight (the (map_of (concepts (insertConcept nm ident cat w prereqs g)) ident))
            \<le> 1)
       = (0 \<le> w \<and> w \<le> 1))"
  by (simp add: insertConcept_def new_Concept_def update_conv')

subsection \<open>The day counter\<close>

lemma sint_add_no_overflow:
  fixes a b :: c_int
  assumes "0 \<le> sint b" "sint a + sint b \<le> 2147483647"
  shows "sint (a + b) = sint a + sint b"
proof -
  have "- (2 ^ 31) \<le> sint a" using sint_ge [of a] by simp
  with assms have "- (2 ^ 31) \<le> sint a + sint b" "sint a + sint b < 2 ^ 31" by simp_all
  then show ?thesis
    by (simp add: sint_word_add signed_take_bit_int_eq_self)
qed

lemma reviseConcept_day:
  "current_day (snd (reviseConcept cid boost g)) = current_day g"
  by (simp add: reviseConcept_def Let_def split: option.split)

text \<open>
  Claim C9 says that no public operation decreases \<open>current_day\<close>. \<open>simulateTimePassage\<close>
  adds its argument without looking at its sign: one day back from day 0 gives day -1.
\<close>

theorem simulateTimePassage_negative_days:
  "sint (getCurrentDay (simulateTimePassage (- 1) (new_MemoryGraph 0.15)))
     < sint (getCurrentDay (new_MemoryGraph 0.15))"
  by (simp add: getCurrentDay_def simulateTimePassage_def updateMemoryStrengths_params
      new_MemoryGraph_def)

text \<open>
  Claim C9, amended. \<open>simulateTimePassage days\<close> sets \<open>current_day\<close> to \<open>current_day + days\<close>;
  when \<open>days\<close> is not negative and the sum does not exceed \<^verbatim>\<open>INT_MAX\<close>, \<open>getCurrentDay\<close> after
  the call is greater than or equal to its value before. No other public operation changes
  \<open>current_day\<close>.
\<close>

theorem current_day_changes_only_by_simulateTimePassage:
  "getCurrentDay (simulateTimePassage days g) = getCurrentDay g + days
   \<and> (0 \<le> sint days \<and> sint (getCurrentDay g) + sint days \<le> 2147483647 \<longrightarrow>
        sint (getCurrentDay g) \<le> sint (getCurrentDay (simulateTimePassage days g)))
   \<and> getCurrentDay (insertConcept nm ident cat w prereqs g) = getCurrentDay g
   \<and> getCurrentDay (updateMemoryStrengths g) = getCurrentDay g
   \<and> getCurrentDay (snd (reviseConcept cid boost g)) = getCurrentDay g
   \<and> getCurrentDay (setDecayRate rate g) = getCurrentDay g"
proof -
  have day: "getCurrentDay (simulateTimePassage days g) = getCurrentDay g + days"
    by (simp add: getCurrentDay_def simulateTimePassage_def updateMemoryStrengths_params)
  have "sint (getCurrentDay g) \<le> sint (getCurrentDay g + days)"
    if "0 \<le> sint days" "sint (getCurrentDay g) + sint days \<le> 2147483647"
    using that sint_add_no_overflow [of days "getCurrentDay g"] by simp
  with day show ?thesis
    by (simp add: getCurrentDay_def updateMemoryStrengths_params reviseConcept_day
        insertConcept_def setDecayRate_def)
qed

theorem current_day_changes_only_by_simulateTimePassage_witness:
  "0 \<le> sint (10 :: c_int)
   \<and> sint (getCurrentDay example_graph) + sint (10 :: c_int) \<le> 2147483647
   \<and> sint (getCurrentDay example_graph)
        \<le> sint (getCurrentDay (simulateTimePassage 10 example_graph))
   \<and> getCurrentDay (simulateTimePassage 10 example_graph) = 10"
proof -
  have d: "getCurrentDay example_graph = 0"
    by (simp add: example_graph_def getCurrentDay_def insertConcept_def new_MemoryGraph_def)
  show ?thesis
    using current_day_changes_only_by_simulateTimePassage [of 10 example_graph]
    by (simp add: d)
qed

subsection \<open>Revision of a concept of the graph\<close>

text \<open>
  Claim C5. For an id absent from the concept map, \<open>reviseConcept\<close> raises the
  \<^verbatim>\<open>Concept not found\<close> error and returns the graph it was given: every concept, every entry
  of the priority structure and both counters are as before the call.
\<close>

theorem reviseConcept_unknown_id:
  "map_of (concepts g) cid = None \<Longrightarrow>
   reviseConcept cid boost g = (Inl (runtime_error (''Concept not found: '' @ cid)), g)"
  by (simp add: reviseConcept_def)

theorem reviseConcept_unknown_id_witness:
  "map_of (concepts example_graph) ''graphs'' = None \<and>
   reviseConcept ''graphs'' 0.4 example_graph
     = (Inl (runtime_error ''Concept not found: graphs''), example_graph)"
proof -
  have h: "map_of (concepts example_graph) ''graphs'' = None"
    by (simp add: example_graph_def insertConcept_def new_MemoryGraph_def)
  from reviseConcept_unknown_id [OF h, of "0.4"] h show ?thesis by simp
qed

subsection \<open>The min-heap\<close>

lemma length_swap_nodes [simp]: "length (swap_nodes heap i j) = length heap"
  by (simp add: swap_nodes_def)

lemma nth_swap_nodes:
  "i < length heap \<Longrightarrow> j < length heap \<Longrightarrow>
   swap_nodes heap i j ! k = (if k = j then heap ! i else if k = i then heap ! j else heap ! k)"
  by (simp add: swap_nodes_def nth_list_update)

lemma heap_from_0: "heap_from heap 0 = min_heap_property heap"
  by (simp add: heap_from_def min_heap_property_def)

lemma parent_less: "0 < k \<Longrightarrow> (k - Suc 0) div 2 < k"
  by arith

lemma heapifyUp_restores:
  "i < length heap \<Longrightarrow> up_inv heap i \<Longrightarrow> min_heap_property (heapifyUp heap i)"
proof (induction heap i rule: heapifyUp.induct)
  case (1 heap i)
  let ?p = "(i - Suc 0) div 2"
  show ?case
  proof (cases "0 < i \<and> node_strength (heap ! ?p) > node_strength (heap ! i)")
    case False
    have "min_heap_property heap"
      unfolding min_heap_property_def
    proof (intro allI impI)
      fix j assume j: "j < length heap" "0 < j"
      show "parent_ok heap j"
      proof (cases "j = i")
        case True
        with False j show ?thesis by (auto simp: parent_ok_def)
      next
        case False
        with "1.prems"(2) j show ?thesis by (simp add: up_inv_def)
      qed
    qed
    with False show ?thesis by (subst heapifyUp.simps) auto
  next
    case True
    then have i0: "0 < i" and lt: "node_strength (heap ! i) < node_strength (heap ! ?p)" by auto
    have p_lt: "?p < i" using i0 by simp
    have p_len: "?p < length heap" using p_lt "1.prems"(1) by simp
    let ?h = "swap_nodes heap ?p i"
    have nth: "\<And>k. ?h ! k = (if k = i then heap ! ?p else if k = ?p then heap ! i else heap ! k)"
      using nth_swap_nodes [OF p_len "1.prems"(1)] by simp
    have inv: "\<And>j. j < length heap \<Longrightarrow> 0 < j \<Longrightarrow> j \<noteq> i \<Longrightarrow> parent_ok heap j"
      using "1.prems"(2) by (simp add: up_inv_def)
    have inv2: "\<And>j. j < length heap \<Longrightarrow> 0 < j \<Longrightarrow> (j - Suc 0) div 2 = i \<Longrightarrow>
        node_strength (heap ! ?p) \<le> node_strength (heap ! j)"
      using "1.prems"(2) i0 by (simp add: up_inv_def)
    have upinv: "up_inv ?h ?p"
      unfolding up_inv_def
    proof (intro allI impI conjI)
      fix j assume j: "j < length ?h" "0 < j" and ne: "j \<noteq> ?p"
      let ?q = "(j - Suc 0) div 2"
      have q_lt: "?q < j" using j by simp
      show "parent_ok ?h j"
      proof (cases "j = i")
        case True
        with lt p_lt show ?thesis by (simp add: parent_ok_def nth)
      next
        case False
        note ji = this
        show ?thesis
        proof (cases "?q = i")
          case True
          with inv2 [of j] j ji ne show ?thesis by (simp add: parent_ok_def nth)
        next
          case False
          note qi = this
          show ?thesis
          proof (cases "?q = ?p")
            case True
            from inv [of j] j ji have "node_strength (heap ! ?p) \<le> node_strength (heap ! j)"
              by (simp add: parent_ok_def True)
            with lt True ji ne p_lt show ?thesis by (simp add: parent_ok_def nth)
          next
            case False
            with inv [of j] j ji qi ne show ?thesis by (simp add: parent_ok_def nth)
          qed
        qed
      qed
    next
      fix j assume j: "j < length ?h" "0 < j" and pj1: "(j - 1) div 2 = ?p \<and> 0 < ?p"
      let ?pp = "(?p - Suc 0) div 2"
      from pj1 have pj: "(j - Suc 0) div 2 = ?p \<and> 0 < ?p" by simp
      have pp_lt: "?pp < ?p" using pj by (intro parent_less) simp
      have pp: "parent_ok heap ?p" using inv [of ?p] pj p_len p_lt by simp
      have "node_strength (?h ! ?pp) \<le> node_strength (?h ! j)"
      proof (cases "j = i")
        case True
        with pp pp_lt p_lt show ?thesis by (simp add: nth parent_ok_def)
      next
        case False
        have "(j - Suc 0) div 2 < j" using j by simp
        then have "j \<noteq> ?p" using pj by simp
        with inv [of j] j False pj pp pp_lt p_lt show ?thesis
          by (simp add: nth parent_ok_def)
      qed
      then show "node_strength (?h ! ((?p - 1) div 2)) \<le> node_strength (?h ! j)" by simp
    qed
    from "1.IH" True p_len upinv have "min_heap_property (heapifyUp ?h ?p)" by simp
    with True show ?thesis by (subst heapifyUp.simps) simp
  qed
qed

lemma parent_eq_iff: "0 < j \<Longrightarrow> ((j - Suc 0) div 2 = i) = (j = 2 * i + 1 \<or> j = 2 * i + 2)"
  by arith

lemma minIndex_of_range:
  "minIndex_of heap i = i \<or>
   (minIndex_of heap i < length heap \<and>
    (minIndex_of heap i = 2 * i + 1 \<or> minIndex_of heap i = 2 * i + 2))"
  by (simp add: minIndex_of_def Let_def)

lemma minIndex_of_le_self:
  "node_strength (heap ! minIndex_of heap i) \<le> node_strength (heap ! i)"
  by (simp add: minIndex_of_def Let_def)

lemma minIndex_of_le_child:
  "j < length heap \<Longrightarrow> j = 2 * i + 1 \<or> j = 2 * i + 2 \<Longrightarrow>
   node_strength (heap ! minIndex_of heap i) \<le> node_strength (heap ! j)"
  by (auto simp: minIndex_of_def Let_def)

lemma heapifyDown_restores:
  "down_inv heap m i \<Longrightarrow> m \<le> i \<Longrightarrow> heap_from (heapifyDown heap i) m"
proof (induction heap i rule: heapifyDown.induct)
  case (1 heap i)
  let ?c = "minIndex_of heap i"
  have part1: "\<And>j. j < length heap \<Longrightarrow> 0 < j \<Longrightarrow> m \<le> (j - Suc 0) div 2 \<Longrightarrow>
      (j - Suc 0) div 2 \<noteq> i \<Longrightarrow> parent_ok heap j"
    using "1.prems"(1) by (simp add: down_inv_def)
  have part2: "\<And>j. j < length heap \<Longrightarrow> 0 < j \<Longrightarrow> (j - Suc 0) div 2 = i \<Longrightarrow> 0 < i \<Longrightarrow>
      m \<le> (i - Suc 0) div 2 \<Longrightarrow>
      node_strength (heap ! ((i - Suc 0) div 2)) \<le> node_strength (heap ! j)"
    using "1.prems"(1) by (simp add: down_inv_def)
  show ?case
  proof (cases "?c = i")
    case True
    have "heap_from heap m"
      unfolding heap_from_def
    proof (intro allI impI)
      fix j assume j: "j < length heap" and "0 < j \<and> m \<le> (j - 1) div 2"
      then have j0: "0 < j" and mj: "m \<le> (j - Suc 0) div 2" by simp_all
      show "parent_ok heap j"
      proof (cases "(j - Suc 0) div 2 = i")
        case False
        with part1 j j0 mj show ?thesis by simp
      next
        case pi: True
        then have "j = 2 * i + 1 \<or> j = 2 * i + 2" using j0 by (simp add: parent_eq_iff)
        from minIndex_of_le_child [OF j this] True pi show ?thesis
          by (simp add: parent_ok_def)
      qed
    qed
    with True show ?thesis by (subst heapifyDown.simps) (simp add: Let_def)
  next
    case False
    with minIndex_of_range [of heap i]
    have c_len: "?c < length heap" and c_child: "?c = 2 * i + 1 \<or> ?c = 2 * i + 2" by auto
    then have i_lt: "i < ?c" by auto
    then have i_len: "i < length heap" using c_len by simp
    have pc: "(?c - Suc 0) div 2 = i" using c_child by auto
    let ?h = "swap_nodes heap i ?c"
    have nth: "\<And>k. ?h ! k = (if k = ?c then heap ! i else if k = i then heap ! ?c else heap ! k)"
      using nth_swap_nodes [OF i_len c_len] by simp
    have inv: "down_inv ?h m ?c"
      unfolding down_inv_def
    proof (intro allI impI conjI)
      fix j assume j: "j < length ?h" "0 < j" and "m \<le> (j - 1) div 2 \<and> (j - 1) div 2 \<noteq> ?c"
      then have mj: "m \<le> (j - Suc 0) div 2" and ne: "(j - Suc 0) div 2 \<noteq> ?c" by simp_all
      let ?q = "(j - Suc 0) div 2"
      have q_lt: "?q < j" using j by (intro parent_less) simp
      show "parent_ok ?h j"
      proof (cases "?q = i")
        case qi: True
        then have jc: "j = 2 * i + 1 \<or> j = 2 * i + 2" using j by (simp add: parent_eq_iff)
        show ?thesis
        proof (cases "j = ?c")
          case True
          with minIndex_of_le_self [of heap i] qi i_lt show ?thesis
            by (simp add: parent_ok_def nth)
        next
          case False
          with minIndex_of_le_child [of j heap i] j jc qi i_lt show ?thesis
            by (simp add: parent_ok_def nth)
        qed
      next
        case qi: False
        have jc: "j \<noteq> ?c" using qi pc by auto
        show ?thesis
        proof (cases "j = i")
          case True
          then have i0: "0 < i" using j by simp
          from part2 [of ?c] c_len pc i0 mj True i_lt
          have "node_strength (heap ! ((i - Suc 0) div 2)) \<le> node_strength (heap ! ?c)" by simp
          with True qi ne q_lt i_lt show ?thesis by (simp add: parent_ok_def nth)
        next
          case False
          with part1 [of j] j mj qi ne jc show ?thesis by (simp add: parent_ok_def nth)
        qed
      qed
    next
      fix j assume j: "j < length ?h" "0 < j"
        and "(j - 1) div 2 = ?c \<and> 0 < ?c \<and> m \<le> (?c - 1) div 2"
      then have pj: "(j - Suc 0) div 2 = ?c" by simp
      have c_lt: "?c < j" using parent_less [of j] j pj by simp
      have "parent_ok heap j"
        using part1 [of j] j pj i_lt "1.prems"(2) by simp
      then have "node_strength (?h ! i) \<le> node_strength (?h ! j)"
        using pj c_lt i_lt by (simp add: parent_ok_def nth)
      then show "node_strength (?h ! ((?c - 1) div 2)) \<le> node_strength (?h ! j)"
        using pc by simp
    qed
    have "m \<le> ?c" using i_lt "1.prems"(2) by simp
    with "1.IH" False inv have "heap_from (heapifyDown ?h ?c) m" by simp
    with False show ?thesis by (subst heapifyDown.simps) (simp add: Let_def)
  qed
qed

lemma mset_swap_nodes:
  "i < length heap \<Longrightarrow> j < length heap \<Longrightarrow> mset (swap_nodes heap i j) = mset heap"
  by (simp add: swap_nodes_def mset_swap)

lemma mset_heapifyUp: "i < length heap \<Longrightarrow> mset (heapifyUp heap i) = mset heap"
proof (induction heap i rule: heapifyUp.induct)
  case (1 heap i)
  show ?case
  proof (cases "0 < i \<and> node_strength (heap ! ((i - 1) div 2)) > node_strength (heap ! i)")
    case False
    then show ?thesis by (subst heapifyUp.simps) auto
  next
    case True
    then have "(i - Suc 0) div 2 < i" by (intro parent_less) simp
    with "1.prems" have p_len: "(i - 1) div 2 < length heap" by simp
    with "1.IH" True "1.prems"
    have "mset (heapifyUp (swap_nodes heap ((i - 1) div 2) i) ((i - 1) div 2)) = mset heap"
      by (simp add: mset_swap_nodes)
    with True show ?thesis by (subst heapifyUp.simps) simp
  qed
qed

lemma mset_heapifyDown: "mset (heapifyDown heap i) = mset heap"
proof (induction heap i rule: heapifyDown.induct)
  case (1 heap i)
  show ?case
  proof (cases "minIndex_of heap i = i")
    case True
    then show ?thesis by (subst heapifyDown.simps) (simp add: Let_def)
  next
    case False
    with minIndex_of_range [of heap i]
    have "minIndex_of heap i < length heap" "i < length heap" by auto
    with "1.IH" False
    have "mset (heapifyDown (swap_nodes heap i (minIndex_of heap i)) (minIndex_of heap i))
            = mset heap"
      by (simp add: mset_swap_nodes)
    with False show ?thesis by (subst heapifyDown.simps) (simp add: Let_def)
  qed
qed

lemma length_heapifyDown [simp]: "length (heapifyDown heap i) = length heap"
  using mset_heapifyDown [of heap i] by (metis size_mset)

lemma insert_h_min_heap:
  assumes "min_heap_property heap"
  shows "min_heap_property (insert_h heap cid strength)"
proof -
  let ?h = "heap @ [HeapNode cid strength]"
  have "up_inv ?h (length heap)"
    unfolding up_inv_def
  proof (intro allI impI conjI)
    fix j assume j: "j < length ?h" "0 < j" "j \<noteq> length heap"
    then have jl: "j < length heap" by simp
    moreover have "(j - Suc 0) div 2 < j" using j by (intro parent_less) simp
    ultimately show "parent_ok ?h j"
      using assms j by (simp add: min_heap_property_def parent_ok_def nth_append)
  next
    fix j assume j: "j < length ?h" "0 < j" and "(j - 1) div 2 = length heap \<and> 0 < length heap"
    moreover have "(j - Suc 0) div 2 < j" using j by (intro parent_less) simp
    ultimately have False by simp
    then show "node_strength (?h ! ((length heap - 1) div 2)) \<le> node_strength (?h ! j)" ..
  qed
  then have "min_heap_property (heapifyUp ?h (length heap))"
    by (intro heapifyUp_restores) simp_all
  then show ?thesis by (simp add: insert_h_def Let_def)
qed

lemma extractMin_min_heap:
  assumes "min_heap_property heap" and "extractMin heap = Inr (min_id, heap')"
  shows "min_heap_property heap'"
proof -
  from assms(2) have ne: "heap \<noteq> []" by (auto simp: extractMin_def split: if_splits)
  let ?h = "butlast (heap[0 := last heap])"
  have h': "heap' = (if ?h \<noteq> [] then heapifyDown ?h 0 else ?h)"
    using assms(2) ne by (simp add: extractMin_def Let_def)
  have "down_inv ?h 0 0"
    unfolding down_inv_def
  proof (intro allI impI conjI)
    fix j assume j: "j < length ?h" "0 < j" and "0 \<le> (j - 1) div 2 \<and> (j - 1) div 2 \<noteq> 0"
    then have q0: "(j - Suc 0) div 2 \<noteq> 0" by simp
    have q_lt: "(j - Suc 0) div 2 < j" using j by (intro parent_less) simp
    from j have jl: "j < length heap" by simp
    from assms(1) jl j have "parent_ok heap j" by (simp add: min_heap_property_def)
    with j q0 q_lt show "parent_ok ?h j"
      by (simp add: parent_ok_def nth_butlast)
  next
    fix j :: nat assume "(j - 1) div 2 = 0 \<and> 0 < (0::nat) \<and> 0 \<le> ((0::nat) - 1) div 2"
    then have False by simp
    then show "node_strength (?h ! ((0 - 1) div 2)) \<le> node_strength (?h ! j)" ..
  qed
  then have "heap_from (heapifyDown ?h 0) 0" by (intro heapifyDown_restores) simp_all
  then have "min_heap_property (heapifyDown ?h 0)" by (simp add: heap_from_0)
  moreover have "?h = [] \<Longrightarrow> min_heap_property ?h" by (simp add: min_heap_property_def)
  ultimately show ?thesis by (simp add: h')
qed

lemma set_key_min_heap:
  assumes heap: "min_heap_property heap" and i: "i < length heap"
  shows "min_heap_property
          (let old_strength = node_strength (heap ! i);
               heap1 = heap[i := HeapNode (concept_id (heap ! i)) new_strength]
           in if new_strength < old_strength then heapifyUp heap1 i else heapifyDown heap1 i)"
proof -
  let ?h = "heap[i := HeapNode (concept_id (heap ! i)) new_strength]"
  have ok: "\<And>j. j < length heap \<Longrightarrow> 0 < j \<Longrightarrow> parent_ok heap j"
    using heap by (simp add: min_heap_property_def)
  show ?thesis
  proof (cases "new_strength < node_strength (heap ! i)")
    case True
    have "up_inv ?h i"
      unfolding up_inv_def
    proof (intro allI impI conjI)
      fix j assume j: "j < length ?h" "0 < j" "j \<noteq> i"
      have "(j - Suc 0) div 2 < length heap" using parent_less [of j] j by simp
      with ok [of j] j True i show "parent_ok ?h j"
        by (auto simp: parent_ok_def nth_list_update)
    next
      fix j assume j: "j < length ?h" "0 < j" and "(j - 1) div 2 = i \<and> 0 < i"
      then have pj: "(j - Suc 0) div 2 = i" and i0: "0 < i" by simp_all
      have "i < j" using parent_less [of j] j pj by simp
      moreover have "(i - Suc 0) div 2 < i" using i0 by (intro parent_less)
      ultimately have "node_strength (?h ! ((i - Suc 0) div 2)) \<le> node_strength (?h ! j)"
        using ok [of j] ok [of i] j pj i0 i by (simp add: parent_ok_def)
      then show "node_strength (?h ! ((i - 1) div 2)) \<le> node_strength (?h ! j)" by simp
    qed
    then have "min_heap_property (heapifyUp ?h i)" using i by (intro heapifyUp_restores) simp_all
    with True show ?thesis by (simp add: Let_def)
  next
    case False
    have "down_inv ?h 0 i"
      unfolding down_inv_def
    proof (intro allI impI conjI)
      fix j assume j: "j < length ?h" "0 < j" and "0 \<le> (j - 1) div 2 \<and> (j - 1) div 2 \<noteq> i"
      then have "(j - Suc 0) div 2 \<noteq> i" by simp
      moreover have "(j - Suc 0) div 2 < length heap" using parent_less [of j] j by simp
      ultimately show "parent_ok ?h j"
        using ok [of j] j False i by (auto simp: parent_ok_def nth_list_update)
    next
      fix j assume j: "j < length ?h" "0 < j"
        and "(j - 1) div 2 = i \<and> 0 < i \<and> 0 \<le> (i - 1) div 2"
      then have pj: "(j - Suc 0) div 2 = i" and i0: "0 < i" by simp_all
      have "i < j" using parent_less [of j] j pj by simp
      moreover have "(i - Suc 0) div 2 < i" using i0 by (intro parent_less)
      ultimately have "node_strength (?h ! ((i - Suc 0) div 2)) \<le> node_strength (?h ! j)"
        using ok [of j] ok [of i] j pj i0 i by (simp add: parent_ok_def)
      then show "node_strength (?h ! ((i - 1) div 2)) \<le> node_strength (?h ! j)" by simp
    qed
    then have "heap_from (heapifyDown ?h i) 0" by (intro heapifyDown_restores) simp_all
    with False show ?thesis by (simp add: Let_def heap_from_0)
  qed
qed

lemma updateKey_from_min_heap:
  "min_heap_property heap \<Longrightarrow> min_heap_property (updateKey_from heap cid new_strength i)"
proof (induction heap cid new_strength i rule: updateKey_from.induct)
  case (1 heap cid new_strength i)
  show ?case
  proof (cases "i < length heap")
    case False
    with "1.prems" show ?thesis by (subst updateKey_from.simps) simp
  next
    case True
    show ?thesis
    proof (cases "concept_id (heap ! i) = cid")
      case False
      with True "1.IH" "1.prems" show ?thesis by (subst updateKey_from.simps) simp
    next
      case found: True
      from set_key_min_heap [OF "1.prems" True, of new_strength] True found
      show ?thesis by (subst updateKey_from.simps) simp
    qed
  qed
qed

lemma updateKey_min_heap:
  "min_heap_property heap \<Longrightarrow> min_heap_property (updateKey heap cid new_strength)"
  by (simp add: updateKey_def updateKey_from_min_heap)

lemma rebuild_loop_min_heap:
  "heap_from heap n \<Longrightarrow> min_heap_property (rebuild_loop heap n)"
proof (induction n arbitrary: heap)
  case 0
  then show ?case by (simp add: heap_from_0)
next
  case (Suc i)
  have "down_inv heap i i"
    unfolding down_inv_def
  proof (intro allI impI conjI)
    fix j assume j: "j < length heap" "0 < j" and "i \<le> (j - 1) div 2 \<and> (j - 1) div 2 \<noteq> i"
    then have "Suc i \<le> (j - 1) div 2" by simp
    with Suc.prems j show "parent_ok heap j" by (simp add: heap_from_def)
  next
    fix j :: nat assume "(j - 1) div 2 = i \<and> 0 < i \<and> i \<le> (i - 1) div 2"
    then have "0 < i" "i \<le> (i - Suc 0) div 2" by simp_all
    with parent_less [of i] have False by simp
    then show "node_strength (heap ! ((i - 1) div 2)) \<le> node_strength (heap ! j)" ..
  qed
  then have "heap_from (heapifyDown heap i) i" by (intro heapifyDown_restores) simp_all
  with Suc.IH show ?case by simp
qed

lemma rebuild_min_heap: "min_heap_property (rebuild heap data)"
proof -
  let ?h = "map (\<lambda>item. HeapNode (fst item) (snd item)) data"
  have "heap_from ?h (length ?h div 2)"
    unfolding heap_from_def
  proof (intro allI impI)
    fix j assume "j < length ?h" and "0 < j \<and> length ?h div 2 \<le> (j - 1) div 2"
    then have False by (simp only: One_nat_def) arith
    then show "parent_ok ?h j" ..
  qed
  then show ?thesis by (simp add: rebuild_def Let_def rebuild_loop_min_heap)
qed

lemma min_heap_property_upt:
  "min_heap_property heap = (\<forall>i \<in> set [1..<length heap]. parent_ok heap i)"
  by (auto simp: min_heap_property_def)

text \<open>
  Claim C10. After every public operation of \<open>MinHeap\<close> that changes the array (\<open>insert\<close>,
  \<open>extractMin\<close>, \<open>updateKey\<close> on a heap that has the property, and \<open>rebuild\<close> on any
  data) the array has the min-heap property: for every index \<open>i > 0\<close> the strength at the
  parent index \<open>(i - 1) div 2\<close> is at most the strength at \<open>i\<close>. The empty heap of a new
  object has it too. \<open>extractMin\<close> returns on every heap but the empty one, where it raises
  its error and changes nothing.
\<close>

theorem public_operations_keep_min_heap_property:
  "(min_heap_property heap \<longrightarrow> min_heap_property (insert_h heap cid strength))
   \<and> (min_heap_property heap \<and> heap \<noteq> [] \<longrightarrow>
        (\<exists>min_id heap'. extractMin heap = Inr (min_id, heap') \<and> min_heap_property heap'))
   \<and> (heap = [] \<longrightarrow> extractMin heap = Inl (runtime_error ''Heap is empty''))
   \<and> (min_heap_property heap \<longrightarrow> min_heap_property (updateKey heap cid strength))
   \<and> min_heap_property (rebuild heap data)
   \<and> min_heap_property []"
proof -
  have "min_heap_property []" by (simp add: min_heap_property_def)
  moreover have "\<exists>min_id heap'. extractMin heap = Inr (min_id, heap') \<and> min_heap_property heap'"
    if "min_heap_property heap" "heap \<noteq> []"
  proof -
    from that(2) obtain min_id heap' where "extractMin heap = Inr (min_id, heap')"
      by (simp add: extractMin_def Let_def)
    with that(1) extractMin_min_heap show ?thesis by blast
  qed
  moreover have "extractMin heap = Inl (runtime_error ''Heap is empty'')" if "heap = []"
    using that by (simp add: extractMin_def)
  ultimately show ?thesis
    using insert_h_min_heap updateKey_min_heap rebuild_min_heap by blast
qed

theorem public_operations_keep_min_heap_property_witness:
  "min_heap_property example_heap
   \<and> insert_h example_heap ''d'' 0.1
       = [HeapNode ''d'' 0.1, HeapNode ''a'' 0.2, HeapNode ''c'' 0.3, HeapNode ''b'' 0.5]
   \<and> min_heap_property (insert_h example_heap ''d'' 0.1)
   \<and> extractMin example_heap = Inr (''a'', [HeapNode ''c'' 0.3, HeapNode ''b'' 0.5])
   \<and> min_heap_property [HeapNode ''c'' 0.3, HeapNode ''b'' 0.5]
   \<and> updateKey example_heap ''a'' 0.9
       = [HeapNode ''c'' 0.3, HeapNode ''b'' 0.5, HeapNode ''a'' 0.9]
   \<and> min_heap_property (updateKey example_heap ''a'' 0.9)
   \<and> rebuild example_heap [(''a'', 0.5), (''b'', 0.3), (''c'', 0.2), (''d'', 0.1)]
       = [HeapNode ''d'' 0.1, HeapNode ''b'' 0.3, HeapNode ''c'' 0.2, HeapNode ''a'' 0.5]
   \<and> min_heap_property (rebuild example_heap [(''a'', 0.5), (''b'', 0.3), (''c'', 0.2), (''d'', 0.1)])"
proof -
  have h: "min_heap_property example_heap"
    by (simp add: min_heap_property_upt example_heap_def parent_ok_def upt_rec)
  have i: "insert_h example_heap ''d'' 0.1
       = [HeapNode ''d'' 0.1, HeapNode ''a'' 0.2, HeapNode ''c'' 0.3, HeapNode ''b'' 0.5]"
    by (simp add: example_heap_def insert_h_def heapifyUp.simps swap_nodes_def)
  have e: "extractMin example_heap = Inr (''a'', [HeapNode ''c'' 0.3, HeapNode ''b'' 0.5])"
    by (simp add: example_heap_def extractMin_def heapifyDown.simps minIndex_of_def
        swap_nodes_def)
  have u: "updateKey example_heap ''a'' 0.9
       = [HeapNode ''c'' 0.3, HeapNode ''b'' 0.5, HeapNode ''a'' 0.9]"
    by (simp add: example_heap_def updateKey_def updateKey_from.simps heapifyUp.simps
        heapifyDown.simps minIndex_of_def swap_nodes_def)
  have "length [(''a'', 0.5::real), (''b'', 0.3), (''c'', 0.2), (''d'', 0.1)] div 2 = Suc (Suc 0)"
    by simp
  then have r: "rebuild example_heap [(''a'', 0.5), (''b'', 0.3), (''c'', 0.2), (''d'', 0.1)]
       = [HeapNode ''d'' 0.1, HeapNode ''b'' 0.3, HeapNode ''c'' 0.2, HeapNode ''a'' 0.5]"
    by (simp add: rebuild_def heapifyDown.simps minIndex_of_def swap_nodes_def)
  from public_operations_keep_min_heap_property
    [of example_heap "''d''" "0.1" "[(''a'', 0.5), (''b'', 0.3), (''c'', 0.2), (''d'', 0.1)]"]
  have 1: "min_heap_property (insert_h example_heap ''d'' 0.1)"
    and 2: "min_heap_property [HeapNode ''c'' 0.3, HeapNode ''b'' 0.5]"
    and 3: "min_heap_property (rebuild example_heap [(''a'', 0.5), (''b'', 0.3), (''c'', 0.2), (''d'', 0.1)])"
    using h e by (auto simp: example_heap_def)
  from public_operations_keep_min_heap_property [of example_heap "''a''" "0.9"] h
  have 4: "min_heap_property (updateKey example_heap ''a'' 0.9)" by simp
  from h i e u r 1 2 3 4 show ?thesis by simp
qed

subsection \<open>The neighbour boost of a revision\<close>

lemma boost_connected_concepts:
  "fst (boost_connected cid tp cs pq) =
     map (\<lambda>pair. (fst pair, if is_connected_to cid tp (snd pair)
                              then neighbor_boost (snd pair) else snd pair)) cs"
  by (induction cs arbitrary: pq) (simp_all add: Let_def is_connected_to_def neighbor_boost_def)

lemma boost_connected_queue:
  "snd (boost_connected cid tp cs pq) = foldl (boost_step cid tp) pq cs"
  by (induction cs arbitrary: pq) (simp_all add: Let_def is_connected_to_def boost_step_def)

lemma map_of_map_snd:
  "map_of (map (\<lambda>pair. (fst pair, f (snd pair))) xs) k = map_option f (map_of xs k)"
  by (induction xs) auto

text \<open>What \<open>updateKey\<close> does to the entries, as a multiset.\<close>

lemma updateKey_from_mset:
  "(\<forall>j. i \<le> j \<and> j < length heap \<longrightarrow> concept_id (heap ! j) \<noteq> cid) \<and>
      updateKey_from heap cid s i = heap
   \<or> (\<exists>j. i \<le> j \<and> j < length heap \<and> concept_id (heap ! j) = cid \<and>
          mset (updateKey_from heap cid s i) = mset (heap[j := HeapNode cid s]))"
proof (induction heap cid s i rule: updateKey_from.induct)
  case (1 heap cid s i)
  show ?case
  proof (cases "i < length heap")
    case False
    then have "updateKey_from heap cid s i = heap" by (subst updateKey_from.simps) simp
    with False show ?thesis by auto
  next
    case True
    show ?thesis
    proof (cases "concept_id (heap ! i) = cid")
      case found: True
      let ?h = "heap[i := HeapNode (concept_id (heap ! i)) s]"
      have "mset (updateKey_from heap cid s i) = mset ?h"
        using True found
        by (subst updateKey_from.simps) (simp add: Let_def mset_heapifyUp mset_heapifyDown)
      with True found show ?thesis by auto
    next
      case False
      have eq: "updateKey_from heap cid s i = updateKey_from heap cid s (i + 1)"
        using True False by (subst updateKey_from.simps) simp
      from "1.IH" [OF True False] show ?thesis
      proof
        assume a: "(\<forall>j. i + 1 \<le> j \<and> j < length heap \<longrightarrow> concept_id (heap ! j) \<noteq> cid) \<and>
          updateKey_from heap cid s (i + 1) = heap"
        have "\<forall>j. i \<le> j \<and> j < length heap \<longrightarrow> concept_id (heap ! j) \<noteq> cid"
        proof (intro allI impI)
          fix j assume "i \<le> j \<and> j < length heap"
          then show "concept_id (heap ! j) \<noteq> cid"
            using a False by (cases "j = i") auto
        qed
        with a eq show ?thesis by simp
      next
        assume "\<exists>j. i + 1 \<le> j \<and> j < length heap \<and> concept_id (heap ! j) = cid \<and>
          mset (updateKey_from heap cid s (i + 1)) = mset (heap[j := HeapNode cid s])"
        then obtain j where "i + 1 \<le> j" "j < length heap" "concept_id (heap ! j) = cid"
          "mset (updateKey_from heap cid s (i + 1)) = mset (heap[j := HeapNode cid s])" by blast
        with eq have "i \<le> j \<and> j < length heap \<and> concept_id (heap ! j) = cid \<and>
          mset (updateKey_from heap cid s i) = mset (heap[j := HeapNode cid s])" by simp
        then show ?thesis by blast
      qed
    qed
  qed
qed

lemma updateKey_mset:
  "cid \<notin> concept_id ` set heap \<and> updateKey heap cid s = heap
   \<or> (\<exists>j < length heap. concept_id (heap ! j) = cid \<and>
          mset (updateKey heap cid s) = add_mset (HeapNode cid s) (mset heap - {#heap ! j#}))"
proof -
  from updateKey_from_mset [of 0 heap cid s] show ?thesis
  proof
    assume "(\<forall>j. 0 \<le> j \<and> j < length heap \<longrightarrow> concept_id (heap ! j) \<noteq> cid) \<and>
      updateKey_from heap cid s 0 = heap"
    then have "cid \<notin> concept_id ` set heap \<and> updateKey heap cid s = heap"
      by (auto simp: updateKey_def in_set_conv_nth)
    then show ?thesis ..
  next
    assume "\<exists>j. 0 \<le> j \<and> j < length heap \<and> concept_id (heap ! j) = cid \<and>
      mset (updateKey_from heap cid s 0) = mset (heap[j := HeapNode cid s])"
    then have "\<exists>j < length heap. concept_id (heap ! j) = cid \<and>
          mset (updateKey heap cid s) = add_mset (HeapNode cid s) (mset heap - {#heap ! j#})"
      by (auto simp: updateKey_def mset_update)
    then show ?thesis ..
  qed
qed

lemma updateKey_has_entry:
  "cid \<in> concept_id ` set heap \<Longrightarrow> HeapNode cid s \<in> set (updateKey heap cid s)"
  using updateKey_mset [of cid heap s] by (metis set_mset_mset union_single_eq_member)

lemma updateKey_other_entries:
  assumes "k \<noteq> cid"
  shows "filter_mset (\<lambda>n. concept_id n = k) (mset (updateKey heap cid s))
           = filter_mset (\<lambda>n. concept_id n = k) (mset heap)"
  using updateKey_mset [of cid heap s] assms
  by (auto simp: filter_diff_mset)

lemma updateKey_ids:
  "image_mset concept_id (mset (updateKey heap cid s)) = image_mset concept_id (mset heap)"
proof -
  from updateKey_mset [of cid heap s] show ?thesis
  proof
    assume "cid \<notin> concept_id ` set heap \<and> updateKey heap cid s = heap"
    then show ?thesis by simp
  next
    assume "\<exists>j < length heap. concept_id (heap ! j) = cid \<and>
          mset (updateKey heap cid s) = add_mset (HeapNode cid s) (mset heap - {#heap ! j#})"
    then obtain j where j: "j < length heap" "concept_id (heap ! j) = cid"
      and m: "mset (updateKey heap cid s) = add_mset (HeapNode cid s) (mset heap - {#heap ! j#})"
      by blast
    have "heap ! j \<in># mset heap" using j by simp
    then have "mset heap = add_mset (heap ! j) (mset heap - {#heap ! j#})" by simp
    then have "image_mset concept_id (mset heap)
        = add_mset cid (image_mset concept_id (mset heap - {#heap ! j#}))"
      using j by (metis image_mset_add_mset)
    with m show ?thesis by simp
  qed
qed

lemma boost_step_ids:
  "image_mset concept_id (mset (boost_step cid tp pq pair)) = image_mset concept_id (mset pq)"
  by (simp add: boost_step_def updateKey_ids)

lemma boost_loop_ids:
  "image_mset concept_id (mset (foldl (boost_step cid tp) pq cs)) = image_mset concept_id (mset pq)"
  by (induction cs arbitrary: pq) (simp_all add: boost_step_ids)

lemma boost_loop_other_entries:
  "\<forall>pair \<in> set cs. is_connected_to cid tp (snd pair) \<longrightarrow> id_c (snd pair) \<noteq> k \<Longrightarrow>
   filter_mset (\<lambda>n. concept_id n = k) (mset (foldl (boost_step cid tp) pq cs))
     = filter_mset (\<lambda>n. concept_id n = k) (mset pq)"
proof (induction cs arbitrary: pq)
  case Nil
  then show ?case by simp
next
  case (Cons pair cs)
  have "filter_mset (\<lambda>n. concept_id n = k) (mset (boost_step cid tp pq pair))
          = filter_mset (\<lambda>n. concept_id n = k) (mset pq)"
    using Cons.prems by (auto simp: boost_step_def updateKey_other_entries)
  with Cons show ?case by simp
qed

lemma boost_loop_entry:
  assumes dist: "distinct (map fst cs)"
    and ids: "\<forall>pair \<in> set cs. id_c (snd pair) = fst pair"
    and mem: "(k, other) \<in> set cs"
    and conn: "is_connected_to cid tp other"
    and has: "k \<in> concept_id ` set pq"
  shows "HeapNode k (min 1 (memory_strength other + 1 / 10))
           \<in> set (foldl (boost_step cid tp) pq cs)"
proof -
  let ?new = "min 1 (memory_strength other + 1 / 10)"
  from mem obtain pre post where cs: "cs = pre @ (k, other) # post"
    by (auto dest: split_list)
  let ?pqa = "foldl (boost_step cid tp) pq pre"
  let ?pqb = "boost_step cid tp ?pqa (k, other)"
  have "set_mset (image_mset concept_id (mset ?pqa)) = set_mset (image_mset concept_id (mset pq))"
    by (simp only: boost_loop_ids)
  with has have "k \<in> concept_id ` set ?pqa" by simp
  moreover have "id_c other = k" using ids mem by auto
  ultimately have "HeapNode k ?new \<in> set ?pqb"
    using conn by (simp add: boost_step_def updateKey_has_entry)
  then have "HeapNode k ?new \<in># filter_mset (\<lambda>n. concept_id n = k) (mset ?pqb)" by simp
  moreover have "\<forall>pair \<in> set post. is_connected_to cid tp (snd pair) \<longrightarrow> id_c (snd pair) \<noteq> k"
    using dist ids cs by (auto simp: rev_image_eqI)
  then have "filter_mset (\<lambda>n. concept_id n = k) (mset (foldl (boost_step cid tp) ?pqb post))
      = filter_mset (\<lambda>n. concept_id n = k) (mset ?pqb)"
    by (rule boost_loop_other_entries)
  ultimately have "HeapNode k ?new \<in># mset (foldl (boost_step cid tp) ?pqb post)"
    by (metis mset_subset_eqD multiset_filter_subset)
  then show ?thesis by (simp add: cs)
qed

lemma set_update_subset: "set (AList.update k v xs) \<subseteq> insert (k, v) (set xs)"
  by (induction xs) auto

text \<open>The effect of \<open>reviseConcept\<close> on a concept other than the target.\<close>

lemma reviseConcept_success:
  "map_of (concepts g) tid = Some target \<Longrightarrow>
   reviseConcept tid boost g =
     (Inr (),
      g\<lparr>concepts :=
           map (\<lambda>pair. (fst pair, if is_connected_to tid (prerequisites target) (snd pair)
                                    then neighbor_boost (snd pair) else snd pair))
             (AList.update tid (revise target (current_day g) boost) (concepts g)),
         priority_queue :=
           foldl (boost_step tid (prerequisites target))
             (updateKey (priority_queue g) tid
                (memory_strength (revise target (current_day g) boost)))
             (AList.update tid (revise target (current_day g) boost) (concepts g)),
         total_revisions := total_revisions g + 1\<rparr>)"
  by (simp add: reviseConcept_def Let_def boost_connected_concepts boost_connected_queue
      revise_def)

lemma reviseConcept_other_concept:
  assumes target: "map_of (concepts g) tid = Some target"
    and other: "map_of (concepts g) k = Some other"
    and ne: "k \<noteq> tid"
  shows "map_of (concepts (snd (reviseConcept tid boost g))) k =
           Some (if is_connected_to tid (prerequisites target) other
                 then neighbor_boost other else other)"
proof -
  let ?f = "\<lambda>c. if is_connected_to tid (prerequisites target) c then neighbor_boost c else c"
  have "map_of (map (\<lambda>pair. (fst pair, ?f (snd pair)))
                 (AList.update tid (revise target (current_day g) boost) (concepts g))) k
          = map_option ?f (map_of (AList.update tid (revise target (current_day g) boost)
                                     (concepts g)) k)"
    by (rule map_of_map_snd)
  also have "\<dots> = Some (?f other)" using other ne by (simp add: update_conv')
  finally show ?thesis by (simp add: reviseConcept_success [OF target])
qed

lemma reviseConcept_ids:
  assumes target: "map_of (concepts g) tid = Some target"
  shows "image_mset concept_id (mset (priority_queue (snd (reviseConcept tid boost g))))
           = image_mset concept_id (mset (priority_queue g))"
  by (simp add: reviseConcept_success [OF target] boost_loop_ids updateKey_ids)

lemma revised_concepts_well_formed:
  assumes wf: "well_formed g" and target: "map_of (concepts g) tid = Some target"
  shows "distinct (map fst (AList.update tid (revise target day boost) (concepts g)))"
    and "\<forall>pair \<in> set (AList.update tid (revise target day boost) (concepts g)).
           id_c (snd pair) = fst pair"
proof -
  from wf show "distinct (map fst (AList.update tid (revise target day boost) (concepts g)))"
    by (simp add: well_formed_def distinct_update)
  from target have "(tid, target) \<in> set (concepts g)" by (rule map_of_SomeD)
  with wf have "id_c target = tid" by (auto simp: well_formed_def)
  then have "id_c (revise target day boost) = tid" by (simp add: revise_def Let_def)
  moreover have "set (AList.update tid (revise target day boost) (concepts g))
      \<subseteq> insert (tid, revise target day boost) (set (concepts g))"
    by (rule set_update_subset)
  ultimately show "\<forall>pair \<in> set (AList.update tid (revise target day boost) (concepts g)).
           id_c (snd pair) = fst pair"
    using wf by (auto simp: well_formed_def)
qed

lemma example_graph_eval:
  "concepts example_graph =
     [(''arrays'', new_Concept ''Arrays'' ''arrays'' ''Data Structures'' 0.45 0 []),
      (''sorting'', new_Concept ''Sorting Algorithms'' ''sorting'' ''Algorithms'' 0.62 0 [''arrays''])]"
  "priority_queue example_graph = [HeapNode ''arrays'' 0.45, HeapNode ''sorting'' 0.62]"
  "current_day example_graph = 0"
  by (simp_all add: example_graph_def insertConcept_def new_MemoryGraph_def insert_h_def
      heapifyUp.simps swap_nodes_def)

lemma example_graph_well_formed: "well_formed example_graph"
  by (simp add: well_formed_def example_graph_eval new_Concept_def)

text \<open>
  Claim C3. In a well-formed graph, \<open>reviseConcept\<close> on a present id succeeds, and for every
  other concept \<open>k\<close>: if the target is among \<open>k\<close>'s prerequisites or \<open>k\<close> is among the target's,
  then \<open>k\<close>'s \<open>memory_strength\<close> becomes the old strength plus 0.1, capped at 1.0, its
  \<open>initial_weight\<close> becomes that value, nothing else of the concept changes (so not
  \<open>last_revised_day\<close>), and the priority structure holds an entry for \<open>k\<close> with the new
  strength; otherwise the concept and its entries in the priority structure are unchanged.
  The revision adds or removes no entry of the priority structure. Every state reached from
  a new graph by public operations is well formed (\<open>reachable_well_formed\<close> below).
\<close>

theorem reviseConcept_boosts_neighbours:
  assumes wf: "well_formed g"
    and target: "map_of (concepts g) tid = Some target"
    and other: "map_of (concepts g) k = Some other"
    and ne: "k \<noteq> tid"
  shows
    "(let g' = snd (reviseConcept tid boost g);
          boosted = min 1 (memory_strength other + 1 / 10)
      in fst (reviseConcept tid boost g) = Inr ()
         \<and> (if tid \<in> set (prerequisites other) \<or> k \<in> set (prerequisites target)
            then map_of (concepts g') k =
                   Some (other\<lparr>memory_strength := boosted, initial_weight := boosted\<rparr>)
                 \<and> last_revised_day (the (map_of (concepts g') k)) = last_revised_day other
                 \<and> HeapNode k boosted \<in> set (priority_queue g')
            else map_of (concepts g') k = Some other
                 \<and> filter_mset (\<lambda>n. concept_id n = k) (mset (priority_queue g'))
                     = filter_mset (\<lambda>n. concept_id n = k) (mset (priority_queue g)))
         \<and> image_mset concept_id (mset (priority_queue g'))
             = image_mset concept_id (mset (priority_queue g)))"
proof -
  let ?c1 = "revise target (current_day g) boost"
  let ?cs = "AList.update tid ?c1 (concepts g)"
  let ?pq1 = "updateKey (priority_queue g) tid (memory_strength ?c1)"
  let ?g' = "snd (reviseConcept tid boost g)"
  let ?conn = "is_connected_to tid (prerequisites target) other"
  have pq': "priority_queue ?g' = foldl (boost_step tid (prerequisites target)) ?pq1 ?cs"
    by (simp add: reviseConcept_success [OF target])
  have dist: "distinct (map fst ?cs)" and ids: "\<forall>pair \<in> set ?cs. id_c (snd pair) = fst pair"
    using revised_concepts_well_formed [OF wf target] by blast+
  have "map_of ?cs k = Some other" using other ne by (simp add: update_conv')
  then have mem: "(k, other) \<in> set ?cs" by (rule map_of_SomeD)
  with ids have idk: "id_c other = k" by auto
  then have conn: "?conn = (tid \<in> set (prerequisites other) \<or> k \<in> set (prerequisites target))"
    by (simp add: is_connected_to_def)
  have res: "fst (reviseConcept tid boost g) = Inr ()"
    by (simp add: reviseConcept_success [OF target])
  have cpt: "map_of (concepts ?g') k = Some (if ?conn then neighbor_boost other else other)"
    by (rule reviseConcept_other_concept [OF target other ne])
  have ent: "HeapNode k (min 1 (memory_strength other + 1 / 10)) \<in> set (priority_queue ?g')"
    if c: ?conn
  proof -
    from other have "(k, other) \<in> set (concepts g)" by (rule map_of_SomeD)
    with wf have "k \<in> concept_id ` set (priority_queue g)" by (auto simp: well_formed_def)
    moreover have "set_mset (image_mset concept_id (mset ?pq1))
        = set_mset (image_mset concept_id (mset (priority_queue g)))"
      by (simp only: updateKey_ids)
    ultimately have "k \<in> concept_id ` set ?pq1" by simp
    from boost_loop_entry [OF dist ids mem c this] show ?thesis by (simp only: pq')
  qed
  have same: "filter_mset (\<lambda>n. concept_id n = k) (mset (priority_queue ?g'))
                = filter_mset (\<lambda>n. concept_id n = k) (mset (priority_queue g))"
    if nc: "\<not> ?conn"
  proof -
    have "\<forall>pair \<in> set ?cs. is_connected_to tid (prerequisites target) (snd pair)
            \<longrightarrow> id_c (snd pair) \<noteq> k"
    proof (intro ballI impI)
      fix pair assume p: "pair \<in> set ?cs"
        and c: "is_connected_to tid (prerequisites target) (snd pair)"
      show "id_c (snd pair) \<noteq> k"
      proof
        assume "id_c (snd pair) = k"
        with ids p have "fst pair = k" by auto
        with p have "(k, snd pair) \<in> set ?cs" by (metis prod.collapse)
        with dist mem have "snd pair = other" by (metis eq_key_imp_eq_value)
        with c nc show False by simp
      qed
    qed
    then have "filter_mset (\<lambda>n. concept_id n = k) (mset (priority_queue ?g'))
        = filter_mset (\<lambda>n. concept_id n = k) (mset ?pq1)"
      unfolding pq' by (rule boost_loop_other_entries)
    with ne show ?thesis by (simp add: updateKey_other_entries)
  qed
  have nb: "neighbor_boost other =
      other\<lparr>memory_strength := min 1 (memory_strength other + 1 / 10),
            initial_weight := min 1 (memory_strength other + 1 / 10)\<rparr>"
    by (simp add: neighbor_boost_def)
  show ?thesis
    using res cpt ent same reviseConcept_ids [OF target, of boost]
    by (simp add: Let_def conn nb)
qed

theorem reviseConcept_boosts_neighbours_witness:
  "well_formed example_graph
   \<and> map_of (concepts example_graph) ''sorting''
       = Some (new_Concept ''Sorting Algorithms'' ''sorting'' ''Algorithms'' 0.62 0 [''arrays''])
   \<and> map_of (concepts example_graph) ''arrays''
       = Some (new_Concept ''Arrays'' ''arrays'' ''Data Structures'' 0.45 0 [])
   \<and> ''arrays'' \<noteq> ''sorting''
   \<and> map_of (concepts (snd (reviseConcept ''sorting'' 0.4 example_graph))) ''arrays''
       = Some \<lparr>name = ''Arrays'', id_c = ''arrays'', category = ''Data Structures'',
               initial_weight = 0.55, memory_strength = 0.55, last_revised_day = 0,
               prerequisites = []\<rparr>
   \<and> HeapNode ''arrays'' 0.55
        \<in> set (priority_queue (snd (reviseConcept ''sorting'' 0.4 example_graph)))"
proof -
  have t: "map_of (concepts example_graph) ''sorting''
       = Some (new_Concept ''Sorting Algorithms'' ''sorting'' ''Algorithms'' 0.62 0 [''arrays''])"
    and o: "map_of (concepts example_graph) ''arrays''
       = Some (new_Concept ''Arrays'' ''arrays'' ''Data Structures'' 0.45 0 [])"
    and n: "''arrays'' \<noteq> ''sorting''"
    by (simp_all add: example_graph_eval)
  from reviseConcept_boosts_neighbours [OF example_graph_well_formed t o n, of "0.4"]
  show ?thesis
    using example_graph_well_formed t o by (simp add: Let_def new_Concept_def)
qed

text \<open>
  Claim C4 says that revising \<open>B\<close> does not change a concept \<open>A\<close> that lists \<open>B\<close> as a
  prerequisite. The loop of \<open>reviseConcept\<close> looks for the target in the other concept's
  prerequisites first: revising \<open>arrays\<close> raises \<open>sorting\<close>, which lists \<open>arrays\<close>.
\<close>

theorem reviseConcept_boosts_dependents:
  "memory_strength (the (map_of (concepts (snd (reviseConcept ''arrays'' 0.4 example_graph))) ''sorting''))
     \<noteq> memory_strength (the (map_of (concepts example_graph) ''sorting''))
   \<and> ''arrays'' \<in> set (prerequisites (the (map_of (concepts example_graph) ''sorting'')))
   \<and> ''sorting'' \<notin> set (prerequisites (the (map_of (concepts example_graph) ''arrays'')))"
  by (simp add: reviseConcept_def example_graph_eval new_Concept_def revise_def Let_def)

text \<open>
  Claim C4, amended. For distinct present concepts \<open>A\<close> and \<open>B\<close> where \<open>A\<close> lists \<open>B\<close> as a
  prerequisite and \<open>B\<close> does not list \<open>A\<close>, \<open>reviseConcept\<close> on \<open>B\<close> sets \<open>A\<close>'s
  \<open>memory_strength\<close> and \<open>initial_weight\<close> to the old strength plus 0.1, capped at 1.0,
  and leaves \<open>A\<close>'s \<open>last_revised_day\<close> unchanged.
\<close>

theorem reviseConcept_on_prerequisite:
  assumes "map_of (concepts g) a = Some conceptA"
    and "map_of (concepts g) b = Some conceptB"
    and "a \<noteq> b"
    and "b \<in> set (prerequisites conceptA)"
    and "a \<notin> set (prerequisites conceptB)"
  shows "map_of (concepts (snd (reviseConcept b boost g))) a =
           Some (conceptA\<lparr>memory_strength := min 1 (memory_strength conceptA + 1 / 10),
                         initial_weight := min 1 (memory_strength conceptA + 1 / 10)\<rparr>)
         \<and> last_revised_day (the (map_of (concepts (snd (reviseConcept b boost g))) a))
             = last_revised_day conceptA"
  using reviseConcept_other_concept [OF assms(2) assms(1) assms(3), of boost] assms(4)
  by (simp add: is_connected_to_def neighbor_boost_def)

theorem reviseConcept_on_prerequisite_witness:
  "map_of (concepts example_graph) ''sorting''
       = Some (new_Concept ''Sorting Algorithms'' ''sorting'' ''Algorithms'' 0.62 0 [''arrays''])
   \<and> map_of (concepts example_graph) ''arrays''
       = Some (new_Concept ''Arrays'' ''arrays'' ''Data Structures'' 0.45 0 [])
   \<and> ''sorting'' \<noteq> ''arrays''
   \<and> ''arrays'' \<in> set (prerequisites
        (new_Concept ''Sorting Algorithms'' ''sorting'' ''Algorithms'' 0.62 0 [''arrays'']))
   \<and> ''sorting'' \<notin> set (prerequisites
        (new_Concept ''Arrays'' ''arrays'' ''Data Structures'' 0.45 0 []))
   \<and> map_of (concepts (snd (reviseConcept ''arrays'' 0.4 example_graph))) ''sorting''
       = Some \<lparr>name = ''Sorting Algorithms'', id_c = ''sorting'', category = ''Algorithms'',
               initial_weight = 0.72, memory_strength = 0.72, last_revised_day = 0,
               prerequisites = [''arrays'']\<rparr>"
proof -
  have a: "map_of (concepts example_graph) ''sorting''
       = Some (new_Concept ''Sorting Algorithms'' ''sorting'' ''Algorithms'' 0.62 0 [''arrays''])"
    and b: "map_of (concepts example_graph) ''arrays''
       = Some (new_Concept ''Arrays'' ''arrays'' ''Data Structures'' 0.45 0 [])"
    and n: "''sorting'' \<noteq> ''arrays''"
    and p: "''arrays'' \<in> set (prerequisites
        (new_Concept ''Sorting Algorithms'' ''sorting'' ''Algorithms'' 0.62 0 [''arrays'']))"
    and q: "''sorting'' \<notin> set (prerequisites
        (new_Concept ''Arrays'' ''arrays'' ''Data Structures'' 0.45 0 []))"
    by (simp_all add: example_graph_eval new_Concept_def)
  from reviseConcept_on_prerequisite [OF a b n p q, of "0.4"] a b n p q
  show ?thesis by (simp add: new_Concept_def)
qed

subsection \<open>The priority structure and the concept map\<close>

lemma mset_insert_h: "mset (insert_h heap cid s) = add_mset (HeapNode cid s) (mset heap)"
  by (simp add: insert_h_def Let_def mset_heapifyUp)

lemma mset_rebuild_loop: "mset (rebuild_loop heap n) = mset heap"
  by (induction n arbitrary: heap) (simp_all add: mset_heapifyDown)

lemma mset_rebuild:
  "mset (rebuild heap data) = mset (map (\<lambda>item. HeapNode (fst item) (snd item)) data)"
  by (simp add: rebuild_def Let_def mset_rebuild_loop)

lemma heap_root_minimal:
  "min_heap_property heap \<Longrightarrow> i < length heap \<Longrightarrow>
   node_strength (heap ! 0) \<le> node_strength (heap ! i)"
proof (induction i rule: less_induct)
  case (less i)
  show ?case
  proof (cases "i = 0")
    case True
    then show ?thesis by simp
  next
    case False
    then have p: "(i - Suc 0) div 2 < i" by (intro parent_less) simp
    with less.prems have "(i - Suc 0) div 2 < length heap" by simp
    with less.IH [OF p less.prems(1)]
    have "node_strength (heap ! 0) \<le> node_strength (heap ! ((i - Suc 0) div 2))" by simp
    moreover have "parent_ok heap i"
      using less.prems False by (simp add: min_heap_property_def)
    ultimately show ?thesis by (simp add: parent_ok_def)
  qed
qed

lemma heap_entries_filter:
  "distinct (map fst cs) \<Longrightarrow>
   filter_mset (\<lambda>n. concept_id n = k) (mset (heap_entries cs)) =
     (case map_of cs k of None \<Rightarrow> {#} | Some c \<Rightarrow> {#HeapNode k (memory_strength c)#})"
proof (induction cs)
  case Nil
  then show ?case by (simp add: heap_entries_def)
next
  case (Cons pair cs)
  then have IH: "filter_mset (\<lambda>n. concept_id n = k) (mset (heap_entries cs)) =
     (case map_of cs k of None \<Rightarrow> {#} | Some c \<Rightarrow> {#HeapNode k (memory_strength c)#})"
    by simp
  show ?case
  proof (cases "fst pair = k")
    case True
    with Cons.prems have "k \<notin> fst ` set cs" by auto
    then have "map_of cs k = None" by (simp add: map_of_eq_None_iff)
    with IH True show ?thesis by (cases pair) (simp add: heap_entries_def)
  next
    case False
    with IH show ?thesis by (cases pair) (simp add: heap_entries_def)
  qed
qed

lemma mset_eq_by_ids:
  assumes "\<And>k. filter_mset (\<lambda>n. concept_id n = k) M = filter_mset (\<lambda>n. concept_id n = k) N"
  shows "M = N"
proof (rule multiset_eqI)
  fix n
  have "count M n = count (filter_mset (\<lambda>m. concept_id m = concept_id n) M) n" by simp
  also have "\<dots> = count (filter_mset (\<lambda>m. concept_id m = concept_id n) N) n"
    by (simp only: assms)
  also have "\<dots> = count N n" by simp
  finally show "count M n = count N n" .
qed

lemma updateKey_own_entries:
  assumes "filter_mset (\<lambda>n. concept_id n = k) (mset pq) = {#e#}"
  shows "filter_mset (\<lambda>n. concept_id n = k) (mset (updateKey pq k s)) = {#HeapNode k s#}"
proof -
  have "e \<in># filter_mset (\<lambda>n. concept_id n = k) (mset pq)" by (simp add: assms)
  then have "k \<in> concept_id ` set pq" by auto
  with updateKey_mset [of k pq s]
  obtain j where j: "j < length pq" "concept_id (pq ! j) = k"
    and m: "mset (updateKey pq k s) = add_mset (HeapNode k s) (mset pq - {#pq ! j#})"
    by blast
  from j have "pq ! j \<in># filter_mset (\<lambda>n. concept_id n = k) (mset pq)" by simp
  with assms have "pq ! j = e" by simp
  with m j assms show ?thesis by (simp add: filter_diff_mset)
qed

lemma boost_loop_min_heap:
  "min_heap_property pq \<Longrightarrow> min_heap_property (foldl (boost_step cid tp) pq cs)"
  by (induction cs arbitrary: pq) (simp_all add: boost_step_def updateKey_min_heap)

lemma boost_loop_sync:
  assumes dist: "distinct (map fst cs)"
    and ids: "\<forall>pair \<in> set cs. id_c (snd pair) = fst pair"
    and pre: "filter_mset (\<lambda>n. concept_id n = k) (mset pq) =
      (case map_of cs k of None \<Rightarrow> {#} | Some c \<Rightarrow> {#HeapNode k (memory_strength c)#})"
  shows "filter_mset (\<lambda>n. concept_id n = k) (mset (foldl (boost_step cid tp) pq cs)) =
      (case map_of cs k of None \<Rightarrow> {#}
       | Some c \<Rightarrow> {#HeapNode k (memory_strength
                       (if is_connected_to cid tp c then neighbor_boost c else c))#})"
proof (cases "map_of cs k")
  case None
  then have "k \<notin> fst ` set cs" by (simp add: map_of_eq_None_iff)
  with ids have "\<forall>pair \<in> set cs. is_connected_to cid tp (snd pair) \<longrightarrow> id_c (snd pair) \<noteq> k"
    by auto
  from boost_loop_other_entries [OF this] pre None show ?thesis by simp
next
  case (Some c)
  then have mem: "(k, c) \<in> set cs" by (rule map_of_SomeD)
  have only: "snd pair = c" if "pair \<in> set cs" "fst pair = k" for pair
  proof -
    from that have "(k, snd pair) \<in> set cs" by (metis prod.collapse)
    with dist mem show ?thesis by (metis eq_key_imp_eq_value)
  qed
  show ?thesis
  proof (cases "is_connected_to cid tp c")
    case False
    have "\<forall>pair \<in> set cs. is_connected_to cid tp (snd pair) \<longrightarrow> id_c (snd pair) \<noteq> k"
      using ids only False by auto
    from boost_loop_other_entries [OF this] pre Some False show ?thesis by simp
  next
    case True
    from mem obtain before after where cs: "cs = before @ (k, c) # after"
      by (auto dest: split_list)
    let ?pqa = "foldl (boost_step cid tp) pq before"
    let ?pqb = "boost_step cid tp ?pqa (k, c)"
    have "\<forall>pair \<in> set before. is_connected_to cid tp (snd pair) \<longrightarrow> id_c (snd pair) \<noteq> k"
      using dist ids cs by (auto simp: rev_image_eqI)
    from boost_loop_other_entries [OF this] pre Some
    have "filter_mset (\<lambda>n. concept_id n = k) (mset ?pqa) = {#HeapNode k (memory_strength c)#}"
      by simp
    moreover have "id_c c = k" using ids mem by auto
    ultimately have "filter_mset (\<lambda>n. concept_id n = k) (mset ?pqb)
        = {#HeapNode k (min 1 (memory_strength c + 1 / 10))#}"
      using True by (simp add: boost_step_def updateKey_own_entries)
    moreover have "\<forall>pair \<in> set after. is_connected_to cid tp (snd pair) \<longrightarrow> id_c (snd pair) \<noteq> k"
      using dist ids cs by (auto simp: rev_image_eqI)
    from boost_loop_other_entries [OF this]
    have "filter_mset (\<lambda>n. concept_id n = k) (mset (foldl (boost_step cid tp) ?pqb after))
        = filter_mset (\<lambda>n. concept_id n = k) (mset ?pqb)" .
    ultimately show ?thesis using Some True by (simp add: cs neighbor_boost_def)
  qed
qed

lemma in_sync_heap_entry:
  assumes "in_sync g"
  shows "filter_mset (\<lambda>n. concept_id n = k) (mset (priority_queue g)) =
      (case map_of (concepts g) k of None \<Rightarrow> {#}
       | Some c \<Rightarrow> {#HeapNode k (memory_strength c)#})"
  using assms heap_entries_filter [of "concepts g" k] by (simp add: in_sync_def)

lemma in_sync_reviseConcept:
  assumes sync: "in_sync g"
  shows "in_sync (snd (reviseConcept tid boost g))"
proof (cases "map_of (concepts g) tid")
  case None
  with sync show ?thesis by (simp add: reviseConcept_def)
next
  case (Some target)
  let ?c1 = "revise target (current_day g) boost"
  let ?cs = "AList.update tid ?c1 (concepts g)"
  let ?pq1 = "updateKey (priority_queue g) tid (memory_strength ?c1)"
  let ?F = "\<lambda>c. if is_connected_to tid (prerequisites target) c then neighbor_boost c else c"
  let ?g' = "snd (reviseConcept tid boost g)"
  have cs': "concepts ?g' = map (\<lambda>pair. (fst pair, ?F (snd pair))) ?cs"
    and pq': "priority_queue ?g' = foldl (boost_step tid (prerequisites target)) ?pq1 ?cs"
    by (simp_all add: reviseConcept_success [OF Some])
  from sync have wf0: "distinct (map fst (concepts g))"
    "\<forall>pair \<in> set (concepts g). id_c (snd pair) = fst pair"
    "min_heap_property (priority_queue g)"
    by (simp_all add: in_sync_def)
  have dist: "distinct (map fst ?cs)" using wf0(1) by (simp add: distinct_update)
  from Some have "(tid, target) \<in> set (concepts g)" by (rule map_of_SomeD)
  with wf0(2) have "id_c target = tid" by auto
  then have "id_c ?c1 = tid" by (simp add: revise_def Let_def)
  with wf0(2) set_update_subset [of tid ?c1 "concepts g"]
  have ids: "\<forall>pair \<in> set ?cs. id_c (snd pair) = fst pair" by auto
  have keys': "map fst (concepts ?g') = map fst ?cs" by (simp add: cs' comp_def)
  have ids': "\<forall>pair \<in> set (concepts ?g'). id_c (snd pair) = fst pair"
    using ids by (auto simp: cs' neighbor_boost_def)
  have heap': "min_heap_property (priority_queue ?g')"
    unfolding pq' using wf0(3) by (intro boost_loop_min_heap updateKey_min_heap)
  have "mset (priority_queue ?g') = mset (heap_entries (concepts ?g'))"
  proof (rule mset_eq_by_ids)
    fix k
    have pre: "filter_mset (\<lambda>n. concept_id n = k) (mset ?pq1) =
      (case map_of ?cs k of None \<Rightarrow> {#} | Some c \<Rightarrow> {#HeapNode k (memory_strength c)#})"
    proof (cases "k = tid")
      case True
      from in_sync_heap_entry [OF sync, of tid] Some
      have "filter_mset (\<lambda>n. concept_id n = tid) (mset (priority_queue g))
          = {#HeapNode tid (memory_strength target)#}" by simp
      from updateKey_own_entries [OF this] True show ?thesis by (simp add: update_conv')
    next
      case False
      with in_sync_heap_entry [OF sync, of k] show ?thesis
        by (simp add: updateKey_other_entries update_conv')
    qed
    have "map_of (concepts ?g') k = map_option ?F (map_of ?cs k)"
      unfolding cs' by (rule map_of_map_snd)
    then have "filter_mset (\<lambda>n. concept_id n = k) (mset (heap_entries (concepts ?g'))) =
      (case map_of ?cs k of None \<Rightarrow> {#}
       | Some c \<Rightarrow> {#HeapNode k (memory_strength (?F c))#})"
      using heap_entries_filter [of "concepts ?g'" k] dist keys'
      by (simp split: option.split)
    with boost_loop_sync [OF dist ids pre, of tid "prerequisites target"]
    show "filter_mset (\<lambda>n. concept_id n = k) (mset (priority_queue ?g'))
        = filter_mset (\<lambda>n. concept_id n = k) (mset (heap_entries (concepts ?g')))"
      by (simp only: pq')
  qed
  with dist keys' ids' heap' show ?thesis by (simp add: in_sync_def)
qed

lemma update_fresh: "k \<notin> fst ` set xs \<Longrightarrow> AList.update k v xs = xs @ [(k, v)]"
  by (induction xs) auto

lemma in_sync_new: "in_sync (new_MemoryGraph rate)"
  by (simp add: in_sync_def new_MemoryGraph_def heap_entries_def min_heap_property_def)

lemma in_sync_insertConcept:
  assumes "in_sync g" and "ident \<notin> fst ` set (concepts g)"
  shows "in_sync (insertConcept nm ident cat w prereqs g)"
  using assms
  by (auto simp: in_sync_def insertConcept_def Let_def update_fresh mset_insert_h
      heap_entries_def new_Concept_def insert_h_min_heap)

lemma updateMemoryStrengths_resynchronises:
  assumes "distinct (map fst (concepts g))"
    and "\<forall>pair \<in> set (concepts g). id_c (snd pair) = fst pair"
  shows "in_sync (updateMemoryStrengths g)"
  using assms
  by (auto simp: in_sync_def updateMemoryStrengths_def rebuildPriorityQueue_def Let_def
      mset_rebuild heap_entries_def comp_def updateMemoryStrength_def rebuild_min_heap)

lemma in_sync_apply_operation:
  assumes "in_sync g" and "inserts_fresh_id op g"
  shows "in_sync (apply_operation op g)"
proof (cases op)
  case (InsertConcept nm ident cat w prereqs)
  with assms show ?thesis by (simp add: in_sync_insertConcept)
next
  case UpdateMemoryStrengths
  from assms(1) have "in_sync (updateMemoryStrengths g)"
    by (intro updateMemoryStrengths_resynchronises) (simp_all add: in_sync_def)
  with UpdateMemoryStrengths show ?thesis by simp
next
  case (ReviseConcept cid boost)
  with assms show ?thesis by (simp add: in_sync_reviseConcept)
next
  case (SimulateTimePassage days)
  from assms(1) have "in_sync (updateMemoryStrengths (g\<lparr>current_day := current_day g + days\<rparr>))"
    by (intro updateMemoryStrengths_resynchronises) (simp_all add: in_sync_def)
  with SimulateTimePassage show ?thesis by (simp add: simulateTimePassage_def)
next
  case (SetDecayRate rate)
  with assms show ?thesis by (simp add: setDecayRate_def in_sync_def)
qed

lemma reordered_keys:
  assumes "mset cs = mset cs'"
  shows "distinct (map fst cs) = distinct (map fst cs')" and "set cs = set cs'"
proof -
  from assms have "mset (map fst cs) = mset (map fst cs')" by simp
  then show "distinct (map fst cs) = distinct (map fst cs')" by (rule mset_eq_imp_distinct_iff)
  from assms show "set cs = set cs'" by (rule mset_eq_setD)
qed

lemma in_sync_reordered:
  assumes "in_sync g" and "mset cs = mset (concepts g)"
  shows "in_sync (g\<lparr>concepts := cs\<rparr>)"
proof -
  from assms(2) have "mset (heap_entries cs) = mset (heap_entries (concepts g))"
    by (simp add: heap_entries_def)
  with assms(1) reordered_keys [OF assms(2)] show ?thesis by (simp add: in_sync_def)
qed

lemma reachable_without_reinsert_in_sync:
  "reachable_without_reinsert g \<Longrightarrow> in_sync g"
  by (induction rule: reachable_without_reinsert.induct)
    (simp_all add: in_sync_new in_sync_apply_operation in_sync_reordered)

lemma in_sync_sizes:
  assumes "in_sync g"
  shows "size_h (priority_queue g) = getTotalConcepts g"
proof -
  from assms have "size (mset (priority_queue g)) = size (mset (heap_entries (concepts g)))"
    by (simp add: in_sync_def)
  then show ?thesis by (simp add: size_h_def getTotalConcepts_def heap_entries_def)
qed

lemma in_sync_one_entry_per_id:
  assumes "in_sync g" and "map_of (concepts g) k = Some c"
  shows "filter_mset (\<lambda>n. concept_id n = k) (mset (priority_queue g))
           = {#HeapNode k (memory_strength c)#}"
  using in_sync_heap_entry [OF assms(1), of k] assms(2) by simp

lemma in_sync_recommendation:
  assumes sync: "in_sync g"
  shows "if concepts g = [] then getNextRevisionRecommendation g = Inr ''''
         else (\<exists>k c. getNextRevisionRecommendation g = Inr k \<and> map_of (concepts g) k = Some c \<and>
                 (\<forall>pair \<in> set (concepts g). memory_strength c \<le> memory_strength (snd pair)))"
proof (cases "concepts g = []")
  case True
  with sync have "priority_queue g = []" by (simp add: in_sync_def heap_entries_def)
  with True show ?thesis by (simp add: getNextRevisionRecommendation_def isEmpty_def)
next
  case False
  let ?pq = "priority_queue g"
  from sync have m: "mset ?pq = mset (heap_entries (concepts g))"
    and heap: "min_heap_property ?pq" and dist: "distinct (map fst (concepts g))"
    by (simp_all add: in_sync_def)
  from m have "size (mset ?pq) = size (mset (heap_entries (concepts g)))" by simp
  with False have ne: "?pq \<noteq> []" by (auto simp: heap_entries_def)
  then have "?pq ! 0 \<in> set ?pq" by simp
  then have "?pq ! 0 \<in># mset (heap_entries (concepts g))" by (simp add: m [symmetric])
  then obtain pair where pair: "pair \<in> set (concepts g)"
    and root: "?pq ! 0 = HeapNode (fst pair) (memory_strength (snd pair))"
    by (auto simp: heap_entries_def)
  let ?k = "fst pair" and ?c = "snd pair"
  have look: "map_of (concepts g) ?k = Some ?c"
    using dist pair by (simp add: map_of_eq_Some_iff)
  have rec: "getNextRevisionRecommendation g = Inr ?k"
    using ne root by (simp add: getNextRevisionRecommendation_def isEmpty_def peekMin_def)
  have "memory_strength ?c \<le> memory_strength (snd p)" if "p \<in> set (concepts g)" for p
  proof -
    from that have "HeapNode (fst p) (memory_strength (snd p)) \<in># mset (heap_entries (concepts g))"
      by (auto simp: heap_entries_def)
    then have "HeapNode (fst p) (memory_strength (snd p)) \<in> set ?pq"
      by (simp add: m [symmetric])
    then obtain i where "i < length ?pq" "?pq ! i = HeapNode (fst p) (memory_strength (snd p))"
      by (auto simp: in_set_conv_nth)
    with heap_root_minimal [OF heap, of i] root show ?thesis by simp
  qed
  with rec look False show ?thesis by auto
qed

lemma in_sync_well_formed:
  assumes "in_sync g"
  shows "well_formed g"
proof -
  from assms have "set_mset (mset (priority_queue g)) = set_mset (mset (heap_entries (concepts g)))"
    by (simp only: in_sync_def)
  then have "set (priority_queue g) = set (heap_entries (concepts g))" by simp
  then have "concept_id ` set (priority_queue g) = fst ` set (concepts g)"
    by (simp add: heap_entries_def image_image)
  with assms show ?thesis by (simp add: well_formed_def in_sync_def)
qed

lemma well_formed_new: "well_formed (new_MemoryGraph rate)"
  by (simp add: well_formed_def new_MemoryGraph_def)

lemma well_formed_insertConcept:
  assumes "well_formed g"
  shows "well_formed (insertConcept nm ident cat w prereqs g)"
proof -
  let ?c = "new_Concept nm ident cat w (current_day g) prereqs"
  have "set_mset (mset (insert_h (priority_queue g) ident w))
      = set_mset (add_mset (HeapNode ident w) (mset (priority_queue g)))"
    by (simp only: mset_insert_h)
  then have pq: "set (insert_h (priority_queue g) ident w)
      = insert (HeapNode ident w) (set (priority_queue g))" by simp
  have sub: "set (AList.update ident ?c (concepts g)) \<subseteq> insert (ident, ?c) (set (concepts g))"
    by (rule set_update_subset)
  have "id_c ?c = ident" by (simp add: new_Concept_def)
  with assms sub pq show ?thesis
    by (auto simp: well_formed_def insertConcept_def Let_def distinct_update)
qed

lemma well_formed_reviseConcept:
  assumes wf: "well_formed g"
  shows "well_formed (snd (reviseConcept tid boost g))"
proof (cases "map_of (concepts g) tid")
  case None
  with wf show ?thesis by (simp add: reviseConcept_def)
next
  case (Some target)
  let ?c1 = "revise target (current_day g) boost"
  let ?cs = "AList.update tid ?c1 (concepts g)"
  let ?F = "\<lambda>c. if is_connected_to tid (prerequisites target) c then neighbor_boost c else c"
  let ?g' = "snd (reviseConcept tid boost g)"
  have cs': "concepts ?g' = map (\<lambda>pair. (fst pair, ?F (snd pair))) ?cs"
    by (simp add: reviseConcept_success [OF Some])
  have dist: "distinct (map fst ?cs)" and ids: "\<forall>pair \<in> set ?cs. id_c (snd pair) = fst pair"
    using revised_concepts_well_formed [OF wf Some] by blast+
  have keys': "map fst (concepts ?g') = map fst ?cs" by (simp add: cs' comp_def)
  have ids': "\<forall>pair \<in> set (concepts ?g'). id_c (snd pair) = fst pair"
    using ids by (auto simp: cs' neighbor_boost_def)
  from Some have "(tid, target) \<in> set (concepts g)" by (rule map_of_SomeD)
  then have "tid \<in> fst ` set (concepts g)" by (rule rev_image_eqI) simp
  then have "map fst ?cs = map fst (concepts g)" by (simp add: update_keys)
  with keys' have "map fst (concepts ?g') = map fst (concepts g)" by simp
  then have keys: "fst ` set (concepts ?g') = fst ` set (concepts g)" by (metis set_map)
  have "set_mset (image_mset concept_id (mset (priority_queue ?g')))
      = set_mset (image_mset concept_id (mset (priority_queue g)))"
    by (simp only: reviseConcept_ids [OF Some])
  then have hp: "concept_id ` set (priority_queue ?g') = concept_id ` set (priority_queue g)"
    by simp
  from wf have "fst ` set (concepts g) \<subseteq> concept_id ` set (priority_queue g)"
    by (auto simp: well_formed_def)
  with keys hp have "fst ` set (concepts ?g') \<subseteq> concept_id ` set (priority_queue ?g')"
    by simp
  then have "\<forall>pair \<in> set (concepts ?g'). fst pair \<in> concept_id ` set (priority_queue ?g')"
    by blast
  with dist keys' ids' show ?thesis by (simp add: well_formed_def)
qed

lemma well_formed_apply_operation:
  assumes "well_formed g"
  shows "well_formed (apply_operation op g)"
proof (cases op)
  case (InsertConcept nm ident cat w prereqs)
  with assms show ?thesis by (simp add: well_formed_insertConcept)
next
  case UpdateMemoryStrengths
  from assms have "in_sync (updateMemoryStrengths g)"
    by (intro updateMemoryStrengths_resynchronises) (simp_all add: well_formed_def)
  with UpdateMemoryStrengths show ?thesis by (simp add: in_sync_well_formed)
next
  case (ReviseConcept cid boost)
  with assms show ?thesis by (simp add: well_formed_reviseConcept)
next
  case (SimulateTimePassage days)
  from assms have "in_sync (updateMemoryStrengths (g\<lparr>current_day := current_day g + days\<rparr>))"
    by (intro updateMemoryStrengths_resynchronises) (simp_all add: well_formed_def)
  with SimulateTimePassage show ?thesis
    by (simp add: simulateTimePassage_def in_sync_well_formed)
next
  case (SetDecayRate rate)
  with assms show ?thesis by (simp add: setDecayRate_def well_formed_def)
qed

lemma well_formed_reordered:
  assumes "well_formed g" and "mset cs = mset (concepts g)"
  shows "well_formed (g\<lparr>concepts := cs\<rparr>)"
  using assms(1) reordered_keys [OF assms(2)] by (simp add: well_formed_def)

lemma reachable_well_formed: "reachable g \<Longrightarrow> well_formed g"
  by (induction rule: reachable.induct)
    (simp_all add: well_formed_new well_formed_apply_operation well_formed_reordered)

lemma duplicate_graph_reachable: "reachable duplicate_graph"
proof -
  let ?ops = "\<lambda>g. apply_operation (InsertConcept ''Arrays'' ''arrays'' ''Data Structures'' 1.0 [])
      (apply_operation
         (InsertConcept ''Sorting Algorithms'' ''sorting'' ''Algorithms'' 0.62 [''arrays''])
         (apply_operation (InsertConcept ''Arrays'' ''arrays'' ''Data Structures'' 0.45 []) g))"
  have "reachable (?ops (new_MemoryGraph 0.15))"
    by (intro reachable.operation reachable.new_graph)
  then show ?thesis by (simp add: duplicate_graph_def example_graph_def)
qed

lemma getNextRevisionRecommendation_never_fails:
  "\<exists>k. getNextRevisionRecommendation g = Inr k"
  by (simp add: getNextRevisionRecommendation_def isEmpty_def peekMin_def)

lemma duplicate_graph_eval:
  "concepts duplicate_graph =
     [(''arrays'', new_Concept ''Arrays'' ''arrays'' ''Data Structures'' 1 0 []),
      (''sorting'', new_Concept ''Sorting Algorithms'' ''sorting'' ''Algorithms'' 0.62 0 [''arrays''])]"
  "priority_queue duplicate_graph =
     [HeapNode ''arrays'' 0.45, HeapNode ''sorting'' 0.62, HeapNode ''arrays'' 1]"
  by (simp_all add: duplicate_graph_def example_graph_eval insertConcept_def insert_h_def
      heapifyUp.simps swap_nodes_def new_Concept_def)

text \<open>
  Claim C2 says that after any public operation, also an \<open>insertConcept\<close> with an id that is
  present, every id of the concept map has exactly one entry in the priority structure and the
  two sizes agree. \<open>insertConcept\<close> overwrites the concept and pushes a second entry for the
  id: after \<open>arrays\<close> is inserted again the structure holds three entries, two of them for
  \<open>arrays\<close>, and the map holds two concepts. On states reached without such an insertion the
  claim holds (\<open>reachable_without_reinsert_in_sync\<close>, \<open>in_sync_sizes\<close>,
  \<open>in_sync_one_entry_per_id\<close>), and \<open>updateMemoryStrengths\<close> restores it
  (\<open>updateMemoryStrengths_resynchronises\<close>).
\<close>

theorem insertConcept_present_id_adds_second_entry:
  "map fst (concepts example_graph) = [''arrays'', ''sorting'']
   \<and> size_h (priority_queue example_graph) = getTotalConcepts example_graph
   \<and> map fst (concepts duplicate_graph) = [''arrays'', ''sorting'']
   \<and> map concept_id (priority_queue duplicate_graph) = [''arrays'', ''sorting'', ''arrays'']
   \<and> size_h (priority_queue duplicate_graph) = 3
   \<and> getTotalConcepts duplicate_graph = 2"
  by (simp add: duplicate_graph_eval example_graph_eval size_h_def getTotalConcepts_def)

text \<open>
  Claim C6 says that in every reachable state \<open>getNextRevisionRecommendation\<close> returns an id
  of minimal \<open>memory_strength\<close>. After \<open>arrays\<close> is inserted again with weight 1.0 its old
  entry of strength 0.45 is still the root of the heap: the recommendation is \<open>arrays\<close>, whose
  strength is now 1.0, although \<open>sorting\<close> has 0.62. The call never fails
  (\<open>getNextRevisionRecommendation_never_fails\<close>), and on states reached without inserting a
  present id the claim holds (\<open>reachable_without_reinsert_in_sync\<close>,
  \<open>in_sync_recommendation\<close>).
\<close>

theorem recommendation_after_reinsert_not_minimal:
  "getNextRevisionRecommendation duplicate_graph = Inr ''arrays''
   \<and> memory_strength (the (map_of (concepts duplicate_graph) ''arrays'')) = 1
   \<and> memory_strength (the (map_of (concepts duplicate_graph) ''sorting'')) = 0.62
   \<and> \<not> memory_strength (the (map_of (concepts duplicate_graph) ''arrays''))
         \<le> memory_strength (the (map_of (concepts duplicate_graph) ''sorting''))"
  by (simp add: duplicate_graph_eval getNextRevisionRecommendation_def isEmpty_def peekMin_def
      new_Concept_def)

end
